theory Spec2Isabelle
  imports Main "HOL-Library.AList"
begin

section \<open>Python values, exceptions and the library boundary\<close>

text \<open>
  The program \<^verbatim>\<open>change_task_description.py\<close> is embedded function by function.
  A Python \<^verbatim>\<open>str\<close> is a \<^typ>\<open>string\<close>; a \<^typ>\<open>char\<close> stands for one code point
  below 256. An exception is a value: its class and the text \<^verbatim>\<open>str(e)\<close> gives.
  Of the subclasses only \<^verbatim>\<open>JSONDecodeError\<close> has a name of its own; any other
  subclass raised by a library function is recorded under its base class.
  \<open>NotModelled\<close> is no class of Python: the sample of the library defined below
  answers with it outside the fragment it covers.
\<close>

datatype exn_kind =
    FileNotFoundError | IsADirectoryError | JSONDecodeError | TypeError
  | ValueError | SyntaxError | MemoryError | RecursionError | NotModelled

type_synonym exn = "exn_kind \<times> string"

text \<open>
  What \<^verbatim>\<open>ast.literal_eval\<close> can return, as far as the program looks at it:
  \<^verbatim>\<open>isinstance(tasks, list)\<close> and \<^verbatim>\<open>isinstance(t, str)\<close> are the only tests.
\<close>

datatype pyval = PyStr string | PyList "pyval list" | PyOther

text \<open>
  A value decoded by \<^verbatim>\<open>json.loads\<close>. A \<^verbatim>\<open>dict\<close> keeps its insertion order, so
  it is an association list; a \<^verbatim>\<open>float\<close> is named by its \<^verbatim>\<open>repr\<close>.
\<close>

datatype json =
    JNull | JBool bool | JInt int | JFloat string | JStr string
  | JArr "json list" | JObj "(string \<times> json) list"

text \<open>
  The functions of Python's standard library that the program calls are not part of the
  repository. They are the fields of a record handed to every function of the model.
\<close>

record pylib =
  json_loads :: "string \<Rightarrow> exn + json"
  json_dumps :: "json \<Rightarrow> string"
  literal_eval :: "string \<Rightarrow> exn + pyval"
  repr_str :: "string \<Rightarrow> string"

section \<open>String methods\<close>

text \<open>\<^verbatim>\<open>str.isspace\<close> on the code points below 256.\<close>

definition is_space :: "char \<Rightarrow> bool" where
  "is_space c = ((of_char c :: nat) \<in> set [9, 10, 11, 12, 13, 28, 29, 30, 31, 32, 133, 160])"

text \<open>\<^verbatim>\<open>s.strip()\<close>\<close>

definition strip :: "string \<Rightarrow> string" where
  "strip s = rev (dropWhile is_space (rev (dropWhile is_space s)))"

text \<open>\<^verbatim>\<open>s.split(sep)\<close> for a separator of one character: never an empty list.\<close>

fun split_on :: "char \<Rightarrow> string \<Rightarrow> string list" where
  "split_on sep [] = [[]]"
| "split_on sep (c # cs) =
     (if c = sep then [] # split_on sep cs
      else (case split_on sep cs of p # ps \<Rightarrow> (c # p) # ps | [] \<Rightarrow> [[c]]))"

definition startswith :: "string \<Rightarrow> string \<Rightarrow> bool" where
  "startswith s p = (take (length p) s = p)"

definition endswith :: "string \<Rightarrow> string \<Rightarrow> bool" where
  "endswith s p = (drop (length s - length p) s = p)"

section \<open>The task-input parser\<close>

fun the_str :: "pyval \<Rightarrow> string option" where
  "the_str (PyStr s) = Some s"
| "the_str _ = None"

text \<open>
  \<^verbatim>\<open>isinstance(tasks, list) and all(isinstance(t, str) for t in tasks)\<close>:
  the list of strings when the test holds.
\<close>

fun as_str_list :: "pyval \<Rightarrow> string list option" where
  "as_str_list (PyList vs) =
     (if list_all (\<lambda>v. the_str v \<noteq> None) vs then Some (map (\<lambda>v. the (the_str v)) vs) else None)"
| "as_str_list _ = None"

text \<open>
  The classes that \<^verbatim>\<open>except (ValueError, SyntaxError)\<close> catches:
  \<^verbatim>\<open>JSONDecodeError\<close> is a subclass of \<^verbatim>\<open>ValueError\<close>.
\<close>

definition caught_by_parser :: "exn_kind \<Rightarrow> bool" where
  "caught_by_parser k = (k = ValueError \<or> k = JSONDecodeError \<or> k = SyntaxError)"

text \<open>
  The first rule of \<^verbatim>\<open>parse_task_input\<close>, on the stripped input: \<open>Inr (Some ts)\<close> is
  \<^verbatim>\<open>return tasks\<close>, \<open>Inr None\<close> falls through to the next rule (the test failed, or
  \<^verbatim>\<open>except (ValueError, SyntaxError): pass\<close>), \<open>Inl e\<close> is an exception that the
  \<^verbatim>\<open>except\<close> clause does not catch.
\<close>

definition bracket_rule :: "pylib \<Rightarrow> string \<Rightarrow> exn + string list option" where
  "bracket_rule L task_input =
     (if startswith task_input ''['' \<and> endswith task_input '']'' then
        (case literal_eval L task_input of
           Inr tasks \<Rightarrow> Inr (as_str_list tasks)
         | Inl e \<Rightarrow> if caught_by_parser (fst e) then Inr None else Inl e)
      else Inr None)"

definition parse_task_input :: "pylib \<Rightarrow> string \<Rightarrow> exn + string list" where
  "parse_task_input L raw =
     (let task_input = strip raw in
      case bracket_rule L task_input of
        Inl e \<Rightarrow> Inl e
      | Inr (Some tasks) \<Rightarrow> Inr tasks
      | Inr None \<Rightarrow>
          if CHR '','' \<in> set task_input
          then Inr (filter (\<lambda>task. task \<noteq> []) (map strip (split_on CHR '','' task_input)))
          else Inr [task_input])"

text \<open>
  The second rule in the words of the specification, on the input as it is given: the
  pieces between the commas, each trimmed, without those that are empty after trimming.
\<close>

definition spec_comma_pieces :: "string \<Rightarrow> string list" where
  "spec_comma_pieces s = filter (\<lambda>p. p \<noteq> []) (map strip (split_on CHR '','' s))"

section \<open>Files and standard output\<close>

text \<open>
  A path is the list of its components and \<^verbatim>\<open>str(path)\<close> joins them with a slash.
  The file system maps a path to a directory or to a file with its contents; it has no
  links, permissions or capacity. What the program prints is the list of the lines of
  its standard output. The world also keeps the history of the paths written, in the
  order of the writes, so that the order of two effects can be stated. A function that
  can raise returns the exception or its value, together with the world it leaves
  behind: files written before an exception stay written.
\<close>

type_synonym path = "string list"

datatype node = Dir | File string

record world =
  files :: "path \<rightharpoonup> node"
  stdout :: "string list"
  written :: "path list"

type_synonym 'a result = "(exn + 'a) \<times> world"

abbreviation LF :: char where "LF \<equiv> CHR 0x0A"
abbreviation CR :: char where "CR \<equiv> CHR 0x0D"

text \<open>\<^verbatim>\<open>sep.join(xs)\<close>\<close>

fun join :: "string \<Rightarrow> string list \<Rightarrow> string" where
  "join sep [] = []"
| "join sep [x] = x"
| "join sep (x # y # ys) = x @ sep @ join sep (y # ys)"

definition path_str :: "path \<Rightarrow> string" where
  "path_str p = join ''/'' p"

definition print :: "string \<Rightarrow> world \<Rightarrow> world" where
  "print line w = w\<lparr>stdout := stdout w @ [line]\<rparr>"

text \<open>\<^verbatim>\<open>Path.exists()\<close>: true of a file and of a directory.\<close>

definition exists :: "world \<Rightarrow> path \<Rightarrow> bool" where
  "exists w p = (files w p \<noteq> None)"

text \<open>\<^verbatim>\<open>open(p, 'r')\<close> and reading: the contents, or the error of \<^verbatim>\<open>open\<close>.\<close>

definition open_read :: "pylib \<Rightarrow> world \<Rightarrow> path \<Rightarrow> exn + string" where
  "open_read L w p =
     (case files w p of
        None \<Rightarrow> Inl (FileNotFoundError, ''[Errno 2] No such file or directory: '' @ repr_str L (path_str p))
      | Some Dir \<Rightarrow> Inl (IsADirectoryError, ''[Errno 21] Is a directory: '' @ repr_str L (path_str p))
      | Some (File content) \<Rightarrow> Inr content)"

text \<open>
  \<^verbatim>\<open>open(p, 'w')\<close> followed by the writes and the close: the file is created or
  replaced (line terminators are written as they are, as on POSIX).
\<close>

definition open_write :: "pylib \<Rightarrow> world \<Rightarrow> path \<Rightarrow> string \<Rightarrow> exn + world" where
  "open_write L w p content =
     (case files w p of
        Some Dir \<Rightarrow> Inl (IsADirectoryError, ''[Errno 21] Is a directory: '' @ repr_str L (path_str p))
      | _ \<Rightarrow> Inr (w\<lparr>files := (files w)(p \<mapsto> File content), written := written w @ [p]\<rparr>))"

text \<open>
  A file opened in text mode reads a carriage return, alone or before a line feed, as a
  line feed; iterating over it gives the lines, each with its terminator, the last one
  possibly without.
\<close>

fun universal_newlines :: "string \<Rightarrow> string" where
  "universal_newlines [] = []"
| "universal_newlines [c] = (if c = CR then [LF] else [c])"
| "universal_newlines (c # d # cs) =
     (if c = CR \<and> d = LF then LF # universal_newlines cs
      else if c = CR then LF # universal_newlines (d # cs)
      else c # universal_newlines (d # cs))"

fun text_lines :: "string \<Rightarrow> string list" where
  "text_lines [] = []"
| "text_lines (c # cs) =
     (if c = LF then [LF] # text_lines cs
      else (case text_lines cs of [] \<Rightarrow> [[c]] | l # ls \<Rightarrow> (c # l) # ls))"

definition file_lines :: "string \<Rightarrow> string list" where
  "file_lines content = text_lines (universal_newlines content)"

text \<open>\<^verbatim>\<open>Path.suffix\<close> of a file name and \<^verbatim>\<open>Path.with_suffix\<close>.\<close>

fun rfind :: "char \<Rightarrow> string \<Rightarrow> nat option" where
  "rfind c [] = None"
| "rfind c (x # xs) =
     (case rfind c xs of Some i \<Rightarrow> Some (Suc i) | None \<Rightarrow> if x = c then Some 0 else None)"

definition suffix_of :: "string \<Rightarrow> string" where
  "suffix_of name =
     (case rfind CHR ''.'' name of
        Some i \<Rightarrow> if 0 < i \<and> i < length name - 1 then drop i name else []
      | None \<Rightarrow> [])"

definition with_suffix :: "pylib \<Rightarrow> path \<Rightarrow> string \<Rightarrow> exn + path" where
  "with_suffix L p suffix =
     (if CHR ''/'' \<in> set suffix then Inl (ValueError, ''Invalid suffix '' @ repr_str L suffix)
      else if (suffix \<noteq> [] \<and> \<not> startswith suffix ''.'') \<or> suffix = ''.''
      then Inl (ValueError, ''Invalid suffix '' @ repr_str L suffix)
      else if p = [] \<or> last p = []
      then Inl (ValueError, ''PosixPath('' @ repr_str L (path_str p) @ '') has an empty name'')
      else let name = last p; old_suffix = suffix_of name in
        Inr (butlast p @ [take (length name - length old_suffix) name @ suffix]))"

text \<open>
  \<^verbatim>\<open>shutil.copy2(src, dst)\<close>: when \<^verbatim>\<open>dst\<close> is a directory the copy goes into it,
  under the name of \<^verbatim>\<open>src\<close>.
\<close>

definition copy_target :: "world \<Rightarrow> path \<Rightarrow> path \<Rightarrow> path" where
  "copy_target w src dst = (if files w dst = Some Dir then dst @ [last src] else dst)"

definition copy2 :: "pylib \<Rightarrow> world \<Rightarrow> path \<Rightarrow> path \<Rightarrow> exn + world" where
  "copy2 L w src dst =
     (let target = copy_target w src dst in
      case open_read L w src of
        Inl e \<Rightarrow> Inl e
      | Inr content \<Rightarrow> open_write L w target content)"

section \<open>The record rewriter\<close>

text \<open>\<^verbatim>\<open>record[key] = value\<close> on a decoded JSON value: only a \<^verbatim>\<open>dict\<close> takes it.\<close>

fun setitem :: "json \<Rightarrow> string \<Rightarrow> json \<Rightarrow> exn + json" where
  "setitem (JObj kvs) k v = Inr (JObj (AList.update k v kvs))"
| "setitem (JArr vs) k v = Inl (TypeError, ''list indices must be integers or slices, not str'')"
| "setitem (JStr s) k v = Inl (TypeError, [CHR 0x27] @ ''str'' @ [CHR 0x27] @ '' object does not support item assignment'')"
| "setitem (JInt i) k v = Inl (TypeError, [CHR 0x27] @ ''int'' @ [CHR 0x27] @ '' object does not support item assignment'')"
| "setitem (JFloat f) k v = Inl (TypeError, [CHR 0x27] @ ''float'' @ [CHR 0x27] @ '' object does not support item assignment'')"
| "setitem (JBool b) k v = Inl (TypeError, [CHR 0x27] @ ''bool'' @ [CHR 0x27] @ '' object does not support item assignment'')"
| "setitem JNull k v = Inl (TypeError, [CHR 0x27] @ ''NoneType'' @ [CHR 0x27] @ '' object does not support item assignment'')"

text \<open>The read loop of \<^verbatim>\<open>update_episodes_jsonl\<close>: it stops at the first exception.\<close>

fun read_episodes :: "pylib \<Rightarrow> string list \<Rightarrow> string list \<Rightarrow> exn + json list" where
  "read_episodes L new_tasks [] = Inr []"
| "read_episodes L new_tasks (line # rest) =
     (case json_loads L (strip line) of
        Inl e \<Rightarrow> Inl e
      | Inr episode \<Rightarrow>
          (case setitem episode ''tasks'' (JArr (map JStr new_tasks)) of
             Inl e \<Rightarrow> Inl e
           | Inr episode' \<Rightarrow>
               (case read_episodes L new_tasks rest of
                  Inl e \<Rightarrow> Inl e
                | Inr episodes \<Rightarrow> Inr (episode' # episodes))))"

text \<open>\<^verbatim>\<open>new_tasks[0] if new_tasks else ""\<close>\<close>

definition first_task :: "string list \<Rightarrow> string" where
  "first_task new_tasks = (case new_tasks of [] \<Rightarrow> [] | t # _ \<Rightarrow> t)"

text \<open>The read loop of \<^verbatim>\<open>update_tasks_jsonl\<close>, with its test \<^verbatim>\<open>if line:\<close>.\<close>

fun read_tasks :: "pylib \<Rightarrow> string list \<Rightarrow> string list \<Rightarrow> exn + json list" where
  "read_tasks L new_tasks [] = Inr []"
| "read_tasks L new_tasks (line # rest) =
     (let line' = strip line in
      if line' \<noteq> [] then
        (case json_loads L line' of
           Inl e \<Rightarrow> Inl e
         | Inr task \<Rightarrow>
             (case setitem task ''task'' (JStr (first_task new_tasks)) of
                Inl e \<Rightarrow> Inl e
              | Inr task' \<Rightarrow>
                  (case read_tasks L new_tasks rest of
                     Inl e \<Rightarrow> Inl e
                   | Inr tasks \<Rightarrow> Inr (task' # tasks))))
      else read_tasks L new_tasks rest)"

text \<open>The write loop: \<^verbatim>\<open>f.write(json.dumps(record) + '\n')\<close> for every record.\<close>

definition dump_lines :: "pylib \<Rightarrow> json list \<Rightarrow> string" where
  "dump_lines L records = concat (map (\<lambda>r. json_dumps L r @ [LF]) records)"

fun show_nat :: "nat \<Rightarrow> string" where
  "show_nat n =
     (if n < 10 then [char_of (48 + n)] else show_nat (n div 10) @ [char_of (48 + n mod 10)])"

text \<open>The \<^verbatim>\<open>if create_backup:\<close> block, the same in both functions.\<close>

definition make_backup :: "pylib \<Rightarrow> path \<Rightarrow> world \<Rightarrow> unit result" where
  "make_backup L file w =
     (case with_suffix L file ''.jsonl.backup'' of
        Inl e \<Rightarrow> (Inl e, w)
      | Inr backup_file \<Rightarrow>
          (case copy2 L w file backup_file of
             Inl e \<Rightarrow> (Inl e, w)
           | Inr w' \<Rightarrow> (Inr (), print (''Created backup: '' @ path_str backup_file) w')))"

definition update_episodes_jsonl ::
  "pylib \<Rightarrow> path \<Rightarrow> string list \<Rightarrow> bool \<Rightarrow> world \<Rightarrow> unit result" where
  "update_episodes_jsonl L episodes_file new_tasks create_backup w =
     (case open_read L w episodes_file of
        Inl e \<Rightarrow> (Inl e, w)
      | Inr content \<Rightarrow>
     (case read_episodes L new_tasks (file_lines content) of
        Inl e \<Rightarrow> (Inl e, w)
      | Inr episodes \<Rightarrow>
     (case (if create_backup then make_backup L episodes_file w else (Inr (), w)) of
        (Inl e, w1) \<Rightarrow> (Inl e, w1)
      | (Inr _, w1) \<Rightarrow>
     (case open_write L w1 episodes_file (dump_lines L episodes) of
        Inl e \<Rightarrow> (Inl e, w1)
      | Inr w2 \<Rightarrow>
          (Inr (), print (''Updated '' @ show_nat (length episodes) @ '' episodes in ''
                          @ path_str episodes_file) w2)))))"

definition update_tasks_jsonl ::
  "pylib \<Rightarrow> path \<Rightarrow> string list \<Rightarrow> bool \<Rightarrow> world \<Rightarrow> unit result" where
  "update_tasks_jsonl L tasks_file new_tasks create_backup w =
     (case open_read L w tasks_file of
        Inl e \<Rightarrow> (Inl e, w)
      | Inr content \<Rightarrow>
     (case read_tasks L new_tasks (file_lines content) of
        Inl e \<Rightarrow> (Inl e, w)
      | Inr tasks \<Rightarrow>
     (case (if create_backup then make_backup L tasks_file w else (Inr (), w)) of
        (Inl e, w1) \<Rightarrow> (Inl e, w1)
      | (Inr _, w1) \<Rightarrow>
     (case open_write L w1 tasks_file (dump_lines L tasks) of
        Inl e \<Rightarrow> (Inl e, w1)
      | Inr w2 \<Rightarrow>
          (Inr (), print (''Updated '' @ show_nat (length tasks) @ '' tasks in ''
                          @ path_str tasks_file) w2)))))"

section \<open>The orchestrator and the entry point\<close>

text \<open>\<^verbatim>\<open>new_tasks: Union[str, List[str]]\<close>\<close>

datatype task_arg = RawText string | TaskList "string list"

text \<open>\<^verbatim>\<open>str(xs)\<close> of a list of strings.\<close>

definition repr_list :: "pylib \<Rightarrow> string list \<Rightarrow> string" where
  "repr_list L xs = ''['' @ join '', '' (map (repr_str L) xs) @ '']''"

text \<open>The two marks the program prints, U+2705 and U+274C, as their UTF-8 bytes.\<close>

definition check_mark :: string where
  "check_mark = [CHR 0xE2, CHR 0x9C, CHR 0x85]"

definition cross_mark :: string where
  "cross_mark = [CHR 0xE2, CHR 0x9D, CHR 0x8C]"

definition change_task_description ::
  "pylib \<Rightarrow> path \<Rightarrow> task_arg \<Rightarrow> bool \<Rightarrow> world \<Rightarrow> unit result" where
  "change_task_description L dataset_path new_tasks create_backup w =
     (let meta_dir = dataset_path @ [''meta''];
          episodes_file = meta_dir @ [''episodes.jsonl''];
          tasks_file = meta_dir @ [''tasks.jsonl'']
      in
      if \<not> exists w dataset_path
      then (Inl (FileNotFoundError, ''Dataset directory not found: '' @ path_str dataset_path), w)
      else if \<not> exists w meta_dir
      then (Inl (FileNotFoundError, ''Meta directory not found: '' @ path_str meta_dir), w)
      else if \<not> exists w episodes_file
      then (Inl (FileNotFoundError, ''Episodes file not found: '' @ path_str episodes_file), w)
      else if \<not> exists w tasks_file
      then (Inl (FileNotFoundError, ''Tasks file not found: '' @ path_str tasks_file), w)
      else
        let w1 = print (''Dataset directory: '' @ path_str dataset_path) w in
        case (case new_tasks of RawText s \<Rightarrow> parse_task_input L s | TaskList ts \<Rightarrow> Inr ts) of
          Inl e \<Rightarrow> (Inl e, w1)
        | Inr parsed_tasks \<Rightarrow>
            let w2 = print (''New task descriptions: '' @ repr_list L parsed_tasks) w1;
                w3 = print (if create_backup then ''Backup files will be created''
                            else ''No backup files will be created'') w2;
                w4 = print [] w3
            in
            case update_episodes_jsonl L episodes_file parsed_tasks create_backup w4 of
              (Inl e, w5) \<Rightarrow> (Inl e, w5)
            | (Inr _, w5) \<Rightarrow>
                (case update_tasks_jsonl L tasks_file parsed_tasks create_backup w5 of
                   (Inl e, w6) \<Rightarrow> (Inl e, w6)
                 | (Inr _, w6) \<Rightarrow>
                     let w7 = print [] w6;
                         w8 = print (check_mark @ '' Task descriptions updated successfully!'') w7;
                         w9 = (if create_backup
                               then print ''Backup files created with .backup extension'' w8
                               else w8)
                     in (Inr (), w9)))"

text \<open>
  The \<^verbatim>\<open>__main__\<close> block after the arguments are parsed: the exit code and the
  world at exit. \<^verbatim>\<open>except Exception\<close> catches every exception of the model.
\<close>

definition main :: "pylib \<Rightarrow> path \<Rightarrow> string \<Rightarrow> bool \<Rightarrow> world \<Rightarrow> nat \<times> world" where
  "main L dataset_dir new_tasks backup w =
     (case change_task_description L dataset_dir (RawText new_tasks) backup w of
        (Inl e, w') \<Rightarrow> (1, print (cross_mark @ '' Error: '' @ snd e) w')
      | (Inr _, w') \<Rightarrow> (0, w'))"

section \<open>A sample of the library\<close>

text \<open>
  For the examples, an instance of the library record that computes: \<^verbatim>\<open>repr\<close> of a
  string, the JSON encoder with its default settings, the JSON decoder on texts whose
  numbers are integers and whose escapes name code points below 256, and
  \<^verbatim>\<open>ast.literal_eval\<close> on a table of inputs. The theorems about the program hold for
  every library record; only the closed examples use this one.
\<close>

definition hex_digit :: "nat \<Rightarrow> char" where
  "hex_digit d = (if d < 10 then char_of (48 + d) else char_of (87 + d))"

definition py_repr_char :: "char \<Rightarrow> char \<Rightarrow> string" where
  "py_repr_char q c =
     (let n = (of_char c :: nat) in
      if c = CHR 0x5C then [CHR 0x5C, CHR 0x5C]
      else if c = q then [CHR 0x5C, q]
      else if c = CHR 0x09 then [CHR 0x5C, CHR ''t'']
      else if c = LF then [CHR 0x5C, CHR ''n'']
      else if c = CR then [CHR 0x5C, CHR ''r'']
      else if n < 32 \<or> (127 \<le> n \<and> n \<le> 160) \<or> n = 173
      then [CHR 0x5C, CHR ''x'', hex_digit (n div 16), hex_digit (n mod 16)]
      else [c])"

definition py_repr :: "string \<Rightarrow> string" where
  "py_repr s =
     (let q = (if CHR 0x27 \<in> set s \<and> CHR 0x22 \<notin> set s then CHR 0x22 else CHR 0x27)
      in q # concat (map (py_repr_char q) s) @ [q])"

subsection \<open>The JSON encoder\<close>

definition json_escape :: "char \<Rightarrow> string" where
  "json_escape c =
     (let n = (of_char c :: nat) in
      if c = CHR 0x22 then [CHR 0x5C, CHR 0x22]
      else if c = CHR 0x5C then [CHR 0x5C, CHR 0x5C]
      else if c = LF then [CHR 0x5C, CHR ''n'']
      else if c = CR then [CHR 0x5C, CHR ''r'']
      else if c = CHR 0x09 then [CHR 0x5C, CHR ''t'']
      else if c = CHR 0x08 then [CHR 0x5C, CHR ''b'']
      else if c = CHR 0x0C then [CHR 0x5C, CHR ''f'']
      else if 32 \<le> n \<and> n \<le> 126 then [c]
      else [CHR 0x5C, CHR ''u'', CHR ''0'', CHR ''0'', hex_digit (n div 16), hex_digit (n mod 16)])"

definition dumps_str :: "string \<Rightarrow> string" where
  "dumps_str s = CHR 0x22 # concat (map json_escape s) @ [CHR 0x22]"

definition show_int :: "int \<Rightarrow> string" where
  "show_int i = (if i < 0 then CHR ''-'' # show_nat (nat (- i)) else show_nat (nat i))"

fun py_dumps :: "json \<Rightarrow> string" where
  "py_dumps JNull = ''null''"
| "py_dumps (JBool b) = (if b then ''true'' else ''false'')"
| "py_dumps (JInt i) = show_int i"
| "py_dumps (JFloat f) = f"
| "py_dumps (JStr s) = dumps_str s"
| "py_dumps (JArr vs) = ''['' @ join '', '' (map py_dumps vs) @ '']''"
| "py_dumps (JObj kvs) =
     ''{'' @ join '', '' (map (\<lambda>(k, v). dumps_str k @ '': '' @ py_dumps v) kvs) @ ''}''"

subsection \<open>The JSON decoder\<close>

text \<open>
  A scanner returns the value and the rest of the input, or the class of the error, its
  reason and the input from the position that the error reports.
\<close>

type_synonym 'a scan = "(exn_kind \<times> string \<times> string) + ('a \<times> string)"

definition json_ws :: "char \<Rightarrow> bool" where
  "json_ws c = (c = CHR '' '' \<or> c = CHR 0x09 \<or> c = LF \<or> c = CR)"

definition skip_ws :: "string \<Rightarrow> string" where
  "skip_ws s = dropWhile json_ws s"

definition is_digit :: "char \<Rightarrow> bool" where
  "is_digit c = (48 \<le> (of_char c :: nat) \<and> (of_char c :: nat) \<le> 57)"

definition hex_val :: "char \<Rightarrow> nat option" where
  "hex_val c =
     (let n = (of_char c :: nat) in
      if 48 \<le> n \<and> n \<le> 57 then Some (n - 48)
      else if 97 \<le> n \<and> n \<le> 102 then Some (n - 87)
      else if 65 \<le> n \<and> n \<le> 70 then Some (n - 55)
      else None)"

definition unescape :: "char \<Rightarrow> char option" where
  "unescape e =
     (if e = CHR 0x22 \<or> e = CHR 0x5C \<or> e = CHR ''/'' then Some e
      else if e = CHR ''b'' then Some (CHR 0x08)
      else if e = CHR ''f'' then Some (CHR 0x0C)
      else if e = CHR ''n'' then Some LF
      else if e = CHR ''r'' then Some CR
      else if e = CHR ''t'' then Some (CHR 0x09)
      else None)"

text \<open>The string after its opening quote; \<open>begin\<close> is the input from that quote.\<close>

fun scan_string :: "string \<Rightarrow> string \<Rightarrow> string scan" where
  "scan_string begin [] = Inl (JSONDecodeError, ''Unterminated string starting at'', begin)"
| "scan_string begin (c # cs) =
     (if c = CHR 0x22 then Inr ([], cs)
      else if c = CHR 0x5C then
        (case cs of
           [] \<Rightarrow> Inl (JSONDecodeError, ''Unterminated string starting at'', begin)
         | e # cs' \<Rightarrow>
             if e = CHR ''u'' then
               (case those (map hex_val (take 4 cs')) of
                  Some [a, b, x, y] \<Rightarrow>
                    if a = 0 \<and> b = 0 then
                      (case scan_string begin (drop 4 cs') of
                         Inl err \<Rightarrow> Inl err
                       | Inr (s, r) \<Rightarrow> Inr (char_of (16 * x + y) # s, r))
                    else Inl (NotModelled, ''an escaped code point above 255'', cs)
                | _ \<Rightarrow> Inl (JSONDecodeError, ''Invalid '' @ [CHR 0x5C] @ ''uXXXX escape'', cs))
             else
               (case unescape e of
                  None \<Rightarrow> Inl (JSONDecodeError, ''Invalid '' @ [CHR 0x5C] @ ''escape'', c # cs)
                | Some x \<Rightarrow>
                    (case scan_string begin cs' of
                       Inl err \<Rightarrow> Inl err
                     | Inr (s, r) \<Rightarrow> Inr (x # s, r))))
      else if (of_char c :: nat) < 32
      then Inl (JSONDecodeError, ''Invalid control character at'', c # cs)
      else
        (case scan_string begin cs of
           Inl err \<Rightarrow> Inl err
         | Inr (s, r) \<Rightarrow> Inr (c # s, r)))"

definition digits_val :: "string \<Rightarrow> nat" where
  "digits_val ds = foldl (\<lambda>n d. 10 * n + ((of_char d :: nat) - 48)) 0 ds"

text \<open>
  The number at the start of the input, if there is one: an integer, or
  \<open>NotModelled\<close> for a number with a fraction or an exponent.
\<close>

definition scan_number :: "string \<Rightarrow> json scan option" where
  "scan_number s =
     (let neg = (s \<noteq> [] \<and> hd s = CHR ''-'');
          s1 = (if neg then tl s else s)
      in
      if s1 = [] \<or> \<not> is_digit (hd s1) then None
      else
        let ds = (if hd s1 = CHR ''0'' then [hd s1] else takeWhile is_digit s1);
            rest = drop (length ds) s1;
            frac = (case rest of c # d # _ \<Rightarrow> c = CHR ''.'' \<and> is_digit d | _ \<Rightarrow> False);
            expo = (case rest of
                      c # d # r \<Rightarrow>
                        (c = CHR ''e'' \<or> c = CHR ''E'') \<and>
                        (is_digit d \<or> ((d = CHR ''+'' \<or> d = CHR ''-'') \<and> r \<noteq> [] \<and> is_digit (hd r)))
                    | _ \<Rightarrow> False)
        in
        if frac \<or> expo then Some (Inl (NotModelled, ''a float'', s))
        else Some (Inr (JInt (if neg then - int (digits_val ds) else int (digits_val ds)), rest)))"

text \<open>
  The decoder proper, with fuel for the nesting: \<open>parse_elems\<close> starts at an element of
  an array, \<open>parse_members\<close> at the opening quote of a key of an object.
\<close>

fun parse_value :: "nat \<Rightarrow> string \<Rightarrow> json scan"
  and parse_elems :: "nat \<Rightarrow> string \<Rightarrow> json list scan"
  and parse_members :: "nat \<Rightarrow> string \<Rightarrow> (string \<times> json) list scan" where
  "parse_value 0 s = Inl (NotModelled, ''out of fuel'', s)"
| "parse_value (Suc n) s =
     (if s = [] then Inl (JSONDecodeError, ''Expecting value'', s)
      else if hd s = CHR 0x22 then
        (case scan_string s (tl s) of
           Inl err \<Rightarrow> Inl err
         | Inr (str, r) \<Rightarrow> Inr (JStr str, r))
      else if hd s = CHR ''{'' then
        (let r = skip_ws (tl s) in
         if r \<noteq> [] \<and> hd r = CHR ''}'' then Inr (JObj [], tl r)
         else
           (case parse_members n r of
              Inl err \<Rightarrow> Inl err
            | Inr (kvs, r') \<Rightarrow> Inr (JObj (foldl (\<lambda>d (k, v). AList.update k v d) [] kvs), r')))
      else if hd s = CHR ''['' then
        (let r = skip_ws (tl s) in
         if r \<noteq> [] \<and> hd r = CHR '']'' then Inr (JArr [], tl r)
         else
           (case parse_elems n r of
              Inl err \<Rightarrow> Inl err
            | Inr (vs, r') \<Rightarrow> Inr (JArr vs, r')))
      else if startswith s ''null'' then Inr (JNull, drop 4 s)
      else if startswith s ''true'' then Inr (JBool True, drop 4 s)
      else if startswith s ''false'' then Inr (JBool False, drop 5 s)
      else
        (case scan_number s of
           Some r \<Rightarrow> r
         | None \<Rightarrow>
             if startswith s ''NaN'' \<or> startswith s ''Infinity'' \<or> startswith s ''-Infinity''
             then Inl (NotModelled, ''a float'', s)
             else Inl (JSONDecodeError, ''Expecting value'', s)))"
| "parse_elems 0 s = Inl (NotModelled, ''out of fuel'', s)"
| "parse_elems (Suc n) s =
     (case parse_value n s of
        Inl err \<Rightarrow> Inl err
      | Inr (v, r1) \<Rightarrow>
          (let r2 = skip_ws r1 in
           if r2 \<noteq> [] \<and> hd r2 = CHR '']'' then Inr ([v], tl r2)
           else if r2 \<noteq> [] \<and> hd r2 = CHR '','' then
             (case parse_elems n (skip_ws (tl r2)) of
                Inl err \<Rightarrow> Inl err
              | Inr (vs, r3) \<Rightarrow> Inr (v # vs, r3))
           else Inl (JSONDecodeError, ''Expecting '' @ [CHR 0x27] @ '','' @ [CHR 0x27] @ '' delimiter'', r2)))"
| "parse_members 0 s = Inl (NotModelled, ''out of fuel'', s)"
| "parse_members (Suc n) s =
     (if s \<noteq> [] \<and> hd s = CHR 0x22 then
        (case scan_string s (tl s) of
           Inl err \<Rightarrow> Inl err
         | Inr (key, r1) \<Rightarrow>
             (let r2 = skip_ws r1 in
              if r2 \<noteq> [] \<and> hd r2 = CHR '':'' then
                (case parse_value n (skip_ws (tl r2)) of
                   Inl err \<Rightarrow> Inl err
                 | Inr (v, r4) \<Rightarrow>
                     (let r5 = skip_ws r4 in
                      if r5 \<noteq> [] \<and> hd r5 = CHR ''}'' then Inr ([(key, v)], tl r5)
                      else if r5 \<noteq> [] \<and> hd r5 = CHR '','' then
                        (case parse_members n (skip_ws (tl r5)) of
                           Inl err \<Rightarrow> Inl err
                         | Inr (kvs, r7) \<Rightarrow> Inr ((key, v) # kvs, r7))
                      else Inl (JSONDecodeError, ''Expecting '' @ [CHR 0x27] @ '','' @ [CHR 0x27] @ '' delimiter'', r5)))
              else Inl (JSONDecodeError, ''Expecting '' @ [CHR 0x27] @ '':'' @ [CHR 0x27] @ '' delimiter'', r2)))
      else Inl (JSONDecodeError, ''Expecting property name enclosed in double quotes'', s))"

text \<open>The text of a decoding error: its reason, then the line, column and index.\<close>

definition error_text :: "string \<Rightarrow> string \<Rightarrow> nat \<Rightarrow> string" where
  "error_text reason doc pos =
     (let seen = take pos doc;
          lineno = length (filter (\<lambda>c. c = LF) seen) + 1;
          colno = length (takeWhile (\<lambda>c. c \<noteq> LF) (rev seen)) + 1
      in reason @ '': line '' @ show_nat lineno @ '' column '' @ show_nat colno
         @ '' (char '' @ show_nat pos @ '')'')"

definition py_loads :: "string \<Rightarrow> exn + json" where
  "py_loads s =
     (case parse_value (2 * length s + 2) (skip_ws s) of
        Inl (kind, reason, rest) \<Rightarrow> Inl (kind, error_text reason s (length s - length rest))
      | Inr (v, r) \<Rightarrow>
          (let r' = skip_ws r in
           if r' = [] then Inr v
           else Inl (JSONDecodeError, error_text ''Extra data'' s (length s - length r'))))"

subsection \<open>The literal evaluator, on a table of inputs\<close>

definition py_literal_eval :: "string \<Rightarrow> exn + pyval" where
  "py_literal_eval s =
     (if s = ''[]'' then Inr (PyList [])
      else if s = [CHR ''['', CHR 0x22, CHR 0x22, CHR '']''] then Inr (PyList [PyStr []])
      else if s = [CHR ''['', CHR 0x22] @ ''Pick'' @ [CHR 0x22, CHR '','', CHR 0x22] @ ''Place'' @ [CHR 0x22, CHR '']'']
      then Inr (PyList [PyStr ''Pick'', PyStr ''Place''])
      else if s = ''[1, 2]'' then Inr (PyList [PyOther, PyOther])
      else if s = ''[,]'' then Inl (SyntaxError, ''invalid syntax (<unknown>, line 1)'')
      else if s = ''[{[]: 1}, 2]''
      then Inl (TypeError, ''unhashable type: '' @ [CHR 0x27] @ ''list'' @ [CHR 0x27])
      else Inl (NotModelled, ''an input outside the table''))"

definition py_lib :: pylib where
  "py_lib = \<lparr>json_loads = py_loads, json_dumps = py_dumps,
             literal_eval = py_literal_eval, repr_str = py_repr\<rparr>"

section \<open>Notions of the specification\<close>

text \<open>
  Re-reading a file of records: every line of it, trimmed and decoded, as both read
  loops do it.
\<close>

definition decode_lines :: "pylib \<Rightarrow> string list \<Rightarrow> (exn + json) list" where
  "decode_lines L ls = map (\<lambda>l. json_loads L (strip l)) ls"

definition nonblank :: "string list \<Rightarrow> string list" where
  "nonblank ls = filter (\<lambda>l. strip l \<noteq> []) ls"

text \<open>
  A record rewritten in one field: both are JSON objects, and the fields of the new one
  are those of the original with the field \<open>k\<close> set to \<open>v\<close>.
\<close>

fun rewritten_as :: "string \<Rightarrow> json \<Rightarrow> json \<Rightarrow> json \<Rightarrow> bool" where
  "rewritten_as k v (JObj kvs) (JObj kvs') = (map_of kvs' = (map_of kvs)(k \<mapsto> v))"
| "rewritten_as k v _ _ = False"

text \<open>
  What the program relies on from the JSON library for a record that it writes: the
  encoder puts it on one line, with no whitespace at either end, and the decoder
  gives the record back from that line.
\<close>

definition one_line_round_trip :: "pylib \<Rightarrow> json \<Rightarrow> bool" where
  "one_line_round_trip L r =
     (let d = json_dumps L r in
      json_loads L d = Inr r \<and> LF \<notin> set d \<and> CR \<notin> set d \<and> strip d = d \<and> d \<noteq> [])"

text \<open>
  The first of the four paths, in the order of the checks, that does not exist, with
  the words of its message.
\<close>

definition first_missing :: "world \<Rightarrow> path \<Rightarrow> (string \<times> path) option" where
  "first_missing w d =
     List.find (\<lambda>(what, p). \<not> exists w p)
       [(''Dataset directory'', d),
        (''Meta directory'', d @ [''meta'']),
        (''Episodes file'', d @ [''meta'', ''episodes.jsonl'']),
        (''Tasks file'', d @ [''meta'', ''tasks.jsonl''])]"

text \<open>
  The world after the announcements that the orchestrator prints before the first
  rewrite, and the world after the lines that it prints when both rewrites are done.
\<close>

definition announced :: "pylib \<Rightarrow> path \<Rightarrow> string list \<Rightarrow> bool \<Rightarrow> world \<Rightarrow> world" where
  "announced L d T b w =
     print [] (print (if b then ''Backup files will be created''
                      else ''No backup files will be created'')
       (print (''New task descriptions: '' @ repr_list L T)
         (print (''Dataset directory: '' @ path_str d) w)))"

definition concluded :: "bool \<Rightarrow> world \<Rightarrow> world" where
  "concluded b w =
     (let w' = print (check_mark @ '' Task descriptions updated successfully!'') (print [] w)
      in if b then print ''Backup files created with .backup extension'' w' else w')"

text \<open>\<^verbatim>\<open>parsed_tasks\<close>: the task sequence that the orchestrator resolves its argument to.\<close>

definition resolve :: "pylib \<Rightarrow> task_arg \<Rightarrow> exn + string list" where
  "resolve L arg = (case arg of RawText s \<Rightarrow> parse_task_input L s | TaskList ts \<Rightarrow> Inr ts)"

subsection \<open>The worlds of the examples\<close>

text \<open>The dataset of the specification's scenario: two episodes and one task.\<close>

definition example_episodes :: string where
  \<open>example_episodes =
     ''{"episode_index":0,"tasks":["old"]}'' @ [LF] @
     ''{"episode_index":1,"tasks":["old"]}'' @ [LF]\<close>

definition example_tasks :: string where
  \<open>example_tasks = ''{"task_index":0,"task":"old"}'' @ [LF]\<close>

definition example_world :: world where
  "example_world =
     \<lparr>files = [[''data''] \<mapsto> Dir, [''data'', ''meta''] \<mapsto> Dir,
               [''data'', ''meta'', ''episodes.jsonl''] \<mapsto> File example_episodes,
               [''data'', ''meta'', ''tasks.jsonl''] \<mapsto> File example_tasks],
      stdout = [], written = []\<rparr>"

text \<open>A dataset directory without its \<^verbatim>\<open>meta\<close> subdirectory.\<close>

definition no_meta_world :: world where
  "no_meta_world = \<lparr>files = [[''data''] \<mapsto> Dir], stdout = [], written = []\<rparr>"


text \<open>The scenario with a tasks file whose only line is cut short.\<close>

definition bad_tasks :: string where
  \<open>bad_tasks = ''{"task_index":0,'' @ [LF]\<close>

definition bad_tasks_world :: world where
  "bad_tasks_world =
     example_world\<lparr>files := (files example_world)([''data'', ''meta'', ''tasks.jsonl''] \<mapsto> File bad_tasks)\<rparr>"

text \<open>The scenario with an empty line between the two episodes, and the same in the tasks file.\<close>

definition blank_line_episodes :: string where
  \<open>blank_line_episodes =
     ''{"episode_index":0,"tasks":["old"]}'' @ [LF] @ [LF] @
     ''{"episode_index":1,"tasks":["old"]}'' @ [LF]\<close>

definition blank_line_tasks :: string where
  \<open>blank_line_tasks = ''{"task_index":0,"task":"old"}'' @ [LF] @ [LF]\<close>

definition blank_line_world :: world where
  "blank_line_world =
     example_world\<lparr>files := (files example_world)
       ([''data'', ''meta'', ''episodes.jsonl''] \<mapsto> File blank_line_episodes,
        [''data'', ''meta'', ''tasks.jsonl''] \<mapsto> File blank_line_tasks)\<rparr>"


section \<open>Properties of the string methods\<close>

lemma comma_not_space: "\<not> is_space CHR '',''"
  by (simp add: is_space_def)

lemma bracket_not_space: "\<not> is_space CHR ''[''"
  by (simp add: is_space_def)

lemma dropWhile_all: "(\<forall>c\<in>set s. P c) \<Longrightarrow> dropWhile P s = []"
  by (induction s) auto

lemma dropWhile_NilD: "dropWhile P s = [] \<Longrightarrow> c \<in> set s \<Longrightarrow> P c"
  by (induction s) (auto split: if_splits)

lemma dropWhile_skip: "(\<forall>c\<in>set ws. P c) \<Longrightarrow> dropWhile P (ws @ ys) = dropWhile P ys"
  by (induction ws) auto

lemma dropWhile_keep: "\<not> (\<forall>c\<in>set s. P c) \<Longrightarrow> dropWhile P (s @ ws) = dropWhile P s @ ws"
  by (induction s) auto

lemma takeWhile_all: "c \<in> set (takeWhile P s) \<Longrightarrow> P c"
  by (induction s) (auto split: if_splits)

lemma in_dropWhileD: "c \<in> set (dropWhile P s) \<Longrightarrow> c \<in> set s"
  by (induction s) (auto split: if_splits)

lemma strip_all_space: "(\<forall>c\<in>set s. is_space c) \<Longrightarrow> strip s = []"
proof -
  assume "\<forall>c\<in>set s. is_space c"
  then show ?thesis by (auto simp: strip_def dest: in_dropWhileD)
qed

lemma set_strip_subset: "set (strip s) \<subseteq> set s"
proof
  fix c assume "c \<in> set (strip s)"
  then have "c \<in> set (dropWhile is_space (rev (dropWhile is_space s)))"
    by (simp add: strip_def)
  then have "c \<in> set (rev (dropWhile is_space s))" by (rule in_dropWhileD)
  then have "c \<in> set (dropWhile is_space s)" by simp
  then show "c \<in> set s" by (rule in_dropWhileD)
qed

lemma non_space_in_dropWhile: "x \<in> set s \<Longrightarrow> \<not> is_space x \<Longrightarrow> x \<in> set (dropWhile is_space s)"
  by (induction s) auto

lemma non_space_in_strip: "x \<in> set s \<Longrightarrow> \<not> is_space x \<Longrightarrow> x \<in> set (strip s)"
  using non_space_in_dropWhile[of x "rev (dropWhile is_space s)"] non_space_in_dropWhile[of x s]
  by (simp add: strip_def)

lemma strip_Nil_iff: "strip s = [] \<longleftrightarrow> (\<forall>c\<in>set s. is_space c)"
proof
  assume "strip s = []"
  show "\<forall>c\<in>set s. is_space c"
  proof (rule ccontr)
    assume "\<not> (\<forall>c\<in>set s. is_space c)"
    then obtain c where "c \<in> set s" "\<not> is_space c" by auto
    then have "c \<in> set (strip s)" by (rule non_space_in_strip)
    with \<open>strip s = []\<close> show False by simp
  qed
next
  assume "\<forall>c\<in>set s. is_space c"
  then show "strip s = []" by (rule strip_all_space)
qed

lemma strip_space_prefix: "\<forall>c\<in>set ws. is_space c \<Longrightarrow> strip (ws @ s) = strip s"
  by (simp add: strip_def dropWhile_skip)

lemma strip_space_suffix:
  assumes "\<forall>c\<in>set ws. is_space c"
  shows "strip (s @ ws) = strip s"
proof (cases "\<forall>c\<in>set s. is_space c")
  case True
  with assms have "\<forall>c\<in>set (s @ ws). is_space c" by auto
  then have "strip (s @ ws) = []" by (rule strip_all_space)
  moreover from True have "strip s = []" by (rule strip_all_space)
  ultimately show ?thesis by simp
next
  case False
  then have "dropWhile is_space (s @ ws) = dropWhile is_space s @ ws"
    by (rule dropWhile_keep)
  moreover from assms have "\<forall>c\<in>set (rev ws). is_space c" by simp
  then have "dropWhile is_space (rev ws @ rev (dropWhile is_space s))
      = dropWhile is_space (rev (dropWhile is_space s))"
    by (rule dropWhile_skip)
  ultimately show ?thesis
    by (simp add: strip_def)
qed

lemma hd_strip_not_space: "strip s \<noteq> [] \<Longrightarrow> \<not> is_space (hd (strip s))"
proof -
  assume a: "strip s \<noteq> []"
  let ?d = "dropWhile is_space s"
  let ?e = "dropWhile is_space (rev ?d)"
  from a have e: "?e \<noteq> []" by (simp add: strip_def)
  then have d: "?d \<noteq> []" by (auto dest: in_dropWhileD)
  have "\<not> is_space (hd ?d)" using d by (rule hd_dropWhile)
  moreover have "hd (strip s) = hd ?d"
  proof -
    obtain zs where "rev ?d = takeWhile is_space (rev ?d) @ ?e" by simp
    have "?d = rev ?e @ rev (takeWhile is_space (rev ?d))"
      by (metis rev_append rev_rev_ident takeWhile_dropWhile_id)
    then have "hd ?d = hd (rev ?e)" using e by (metis hd_append2 rev_is_Nil_conv)
    then show ?thesis by (simp add: strip_def)
  qed
  ultimately show ?thesis by simp
qed

lemma split_on_not_Nil: "split_on c s \<noteq> []"
  by (induction s) (auto split: list.splits)

lemma split_on_pieces: "p \<in> set (split_on c s) \<Longrightarrow> set p \<subseteq> set s - {c}"
proof (induction s arbitrary: p)
  case Nil then show ?case by simp
next
  case (Cons x s)
  show ?case
  proof (cases "x = c")
    case True with Cons show ?thesis by auto
  next
    case False
    obtain q qs where q: "split_on c s = q # qs"
      using split_on_not_Nil by (cases "split_on c s") auto
    with Cons.prems False have "p = x # q \<or> p \<in> set qs" by auto
    then show ?thesis
    proof
      assume "p = x # q"
      moreover have "set q \<subseteq> set s - {c}" using Cons.IH[of q] q by simp
      ultimately show ?thesis using False by auto
    next
      assume "p \<in> set qs"
      then have "set p \<subseteq> set s - {c}" using Cons.IH[of p] q by simp
      then show ?thesis by auto
    qed
  qed
qed

lemma split_on_prefix:
  "c \<notin> set xs \<Longrightarrow> split_on c (xs @ ys) = (xs @ hd (split_on c ys)) # tl (split_on c ys)"
proof (induction xs)
  case Nil
  then show ?case using split_on_not_Nil[of c ys] by simp
next
  case (Cons x xs)
  then show ?case by auto
qed

lemma split_on_suffix:
  "c \<notin> set ws \<Longrightarrow> split_on c (xs @ ws) = butlast (split_on c xs) @ [last (split_on c xs) @ ws]"
proof (induction xs)
  case Nil
  then show ?case by (induction ws) (auto split: list.splits)
next
  case (Cons x xs)
  obtain q qs where q: "split_on c xs = q # qs"
    using split_on_not_Nil by (cases "split_on c xs") auto
  show ?case
  proof (cases "x = c")
    case True
    with Cons q show ?thesis by simp
  next
    case False
    with Cons q show ?thesis by (cases qs) auto
  qed
qed

lemma pieces_space_prefix:
  assumes "\<forall>c\<in>set ws. is_space c"
  shows "spec_comma_pieces (ws @ s) = spec_comma_pieces s"
proof -
  from assms have "CHR '','' \<notin> set ws" using comma_not_space by auto
  then have "split_on CHR '','' (ws @ s) = (ws @ hd (split_on CHR '','' s)) # tl (split_on CHR '','' s)"
    by (rule split_on_prefix)
  moreover have "split_on CHR '','' s = hd (split_on CHR '','' s) # tl (split_on CHR '','' s)"
    using split_on_not_Nil by simp
  ultimately have "map strip (split_on CHR '','' (ws @ s)) = map strip (split_on CHR '','' s)"
    using strip_space_prefix[OF assms] by (metis list.simps(9))
  then show ?thesis by (simp add: spec_comma_pieces_def)
qed

lemma pieces_space_suffix:
  assumes "\<forall>c\<in>set ws. is_space c"
  shows "spec_comma_pieces (s @ ws) = spec_comma_pieces s"
proof -
  let ?ps = "split_on CHR '','' s"
  from assms have "CHR '','' \<notin> set ws" using comma_not_space by auto
  then have "split_on CHR '','' (s @ ws) = butlast ?ps @ [last ?ps @ ws]"
    by (rule split_on_suffix)
  moreover have "?ps = butlast ?ps @ [last ?ps]"
    using split_on_not_Nil by simp
  ultimately have "map strip (split_on CHR '','' (s @ ws)) = map strip ?ps"
    using strip_space_suffix[OF assms] by (metis (no_types, lifting) list.simps(8,9) map_append)
  then show ?thesis by (simp add: spec_comma_pieces_def)
qed

lemma pieces_strip: "spec_comma_pieces (strip s) = spec_comma_pieces s"
proof -
  let ?d = "dropWhile is_space s"
  have 1: "spec_comma_pieces ?d = spec_comma_pieces s"
  proof -
    have "\<forall>c\<in>set (takeWhile is_space s). is_space c" by (auto dest: takeWhile_all)
    then have "spec_comma_pieces (takeWhile is_space s @ ?d) = spec_comma_pieces ?d" by (rule pieces_space_prefix)
    then show ?thesis by simp
  qed
  let ?t = "takeWhile is_space (rev ?d)"
  have "?d = strip s @ rev ?t"
    unfolding strip_def by (metis rev_append rev_rev_ident takeWhile_dropWhile_id)
  moreover have "\<forall>c\<in>set (rev ?t). is_space c" by (auto dest: takeWhile_all)
  ultimately have "spec_comma_pieces ?d = spec_comma_pieces (strip s)"
    using pieces_space_suffix by metis
  with 1 show ?thesis by simp
qed

section \<open>Properties of the task-input parser\<close>

lemma not_bracketed: "CHR ''['' \<notin> set s \<Longrightarrow> bracket_rule L s = Inr None"
  by (cases s) (auto simp: bracket_rule_def startswith_def)

lemma parse_fallthrough:
  assumes "bracket_rule L (strip raw) = Inr None"
  shows "parse_task_input L raw =
    Inr (if CHR '','' \<in> set raw then spec_comma_pieces raw else [strip raw])"
proof -
  have "CHR '','' \<in> set (strip raw) \<longleftrightarrow> CHR '','' \<in> set raw"
    using set_strip_subset[of raw] non_space_in_strip[of "CHR '',''" raw] comma_not_space by auto
  moreover have "filter (\<lambda>task. task \<noteq> []) (map strip (split_on CHR '','' (strip raw)))
      = spec_comma_pieces raw"
    using pieces_strip[of raw] by (simp add: spec_comma_pieces_def)
  ultimately show ?thesis using assms by (simp add: parse_task_input_def)
qed

text \<open>
  The second rule of the parser. For every input that contains a comma and on which the
  first rule falls through (the trimmed input is not bracketed, or the literal evaluator
  raises \<^verbatim>\<open>ValueError\<close> or \<^verbatim>\<open>SyntaxError\<close>, or it gives something other than
  a list of strings), the parser returns the pieces obtained by splitting the input on
  commas, trimming each piece and dropping the pieces that are empty after trimming, in
  their order; and parsing \<^verbatim>\<open>a, b ,,c\<close> returns \<^verbatim>\<open>a\<close>, \<^verbatim>\<open>b\<close>, \<^verbatim>\<open>c\<close>,
  whatever the library does.
\<close>
lemma parse_comma_separated:
  "(CHR '','' \<in> set raw \<and> bracket_rule L (strip raw) = Inr None
      \<longrightarrow> parse_task_input L raw = Inr (spec_comma_pieces raw))
   \<and> parse_task_input L ''a, b ,,c'' = Inr [''a'', ''b'', ''c'']"
proof
  show "CHR '','' \<in> set raw \<and> bracket_rule L (strip raw) = Inr None
      \<longrightarrow> parse_task_input L raw = Inr (spec_comma_pieces raw)"
    by (simp add: parse_fallthrough)
next
  have s: "strip ''a, b ,,c'' = ''a, b ,,c''" by (simp add: strip_def is_space_def)
  have "bracket_rule L (strip ''a, b ,,c'') = Inr None"
    unfolding s by (rule not_bracketed) simp
  then have "parse_task_input L ''a, b ,,c'' = Inr (spec_comma_pieces ''a, b ,,c'')"
    by (simp add: parse_fallthrough)
  also have "spec_comma_pieces ''a, b ,,c'' = [''a'', ''b'', ''c'']"
    by (simp add: spec_comma_pieces_def strip_def is_space_def)
  finally show "parse_task_input L ''a, b ,,c'' = Inr [''a'', ''b'', ''c'']" .
qed

text \<open>
  The bracketed input \<^verbatim>\<open>[1, 2]\<close> is evaluated to a list of integers, and
  therefore split at its comma.
\<close>
lemma parse_bracketed_integers:
  "CHR '','' \<in> set ''[1, 2]'' \<and> bracket_rule py_lib (strip ''[1, 2]'') = Inr None
   \<and> parse_task_input py_lib ''[1, 2]'' = Inr [''[1'', ''2]'']"
proof -
  have s: "strip ''[1, 2]'' = ''[1, 2]''" by (simp add: strip_def is_space_def)
  have b: "bracket_rule py_lib (strip ''[1, 2]'') = Inr None"
    unfolding s by (simp add: bracket_rule_def startswith_def endswith_def py_lib_def py_literal_eval_def)
  have p: "spec_comma_pieces ''[1, 2]'' = [''[1'', ''2]'']"
    by (simp add: spec_comma_pieces_def strip_def is_space_def)
  from b parse_comma_separated[of "''[1, 2]''" py_lib] p show ?thesis by simp
qed

text \<open>
  Claim C5 at an input on which the code departs from it. The input
  \<^verbatim>\<open>[{[]: 1}, 2]\<close> contains a comma and is not a list literal of strings, so the
  claim has it split into \<^verbatim>\<open>[{[]: 1}\<close> and \<^verbatim>\<open>2]\<close>. The literal evaluator raises
  \<^verbatim>\<open>TypeError\<close> on it, which \<^verbatim>\<open>except (ValueError, SyntaxError)\<close> does not
  catch: the parser raises instead of returning the pieces. On \<^verbatim>\<open>[,]\<close>, where the
  evaluator raises \<^verbatim>\<open>SyntaxError\<close>, the same handler falls through and the parser
  does return the pieces.
\<close>
theorem parse_comma_type_error:
  "CHR '','' \<in> set ''[{[]: 1}, 2]''
   \<and> literal_eval py_lib ''[{[]: 1}, 2]''
       = Inl (TypeError, ''unhashable type: '' @ [CHR 0x27] @ ''list'' @ [CHR 0x27])
   \<and> spec_comma_pieces ''[{[]: 1}, 2]'' = [''[{[]: 1}'', ''2]'']
   \<and> parse_task_input py_lib ''[{[]: 1}, 2]''
       = Inl (TypeError, ''unhashable type: '' @ [CHR 0x27] @ ''list'' @ [CHR 0x27])
   \<and> parse_task_input py_lib ''[{[]: 1}, 2]'' \<noteq> Inr (spec_comma_pieces ''[{[]: 1}, 2]'')
   \<and> literal_eval py_lib ''[,]'' = Inl (SyntaxError, ''invalid syntax (<unknown>, line 1)'')
   \<and> parse_task_input py_lib ''[,]'' = Inr [''['', '']'']"
  by code_simp

text \<open>
  Claim C6, as the code has it. For every input that consists only of commas and
  whitespace and contains at least one comma, the parser returns the empty sequence.
\<close>
theorem parse_only_commas:
  assumes "\<forall>c\<in>set raw. c = CHR '','' \<or> is_space c" and "CHR '','' \<in> set raw"
  shows "parse_task_input L raw = Inr []"
proof -
  have "CHR ''['' \<notin> set (strip raw)"
    using assms(1) set_strip_subset[of raw] bracket_not_space by auto
  then have "bracket_rule L (strip raw) = Inr None" by (rule not_bracketed)
  then have "parse_task_input L raw = Inr (spec_comma_pieces raw)"
    using assms(2) by (simp add: parse_fallthrough)
  moreover have "spec_comma_pieces raw = []"
  proof -
    have "strip p = []" if "p \<in> set (split_on CHR '','' raw)" for p
    proof -
      from that have "set p \<subseteq> set raw - {CHR '',''}" by (rule split_on_pieces)
      with assms(1) have "\<forall>c\<in>set p. is_space c" by auto
      then show ?thesis by (rule strip_all_space)
    qed
    then show ?thesis by (simp add: spec_comma_pieces_def filter_empty_conv)
  qed
  ultimately show ?thesis by simp
qed

text \<open>The hypotheses of C6 hold at an input of three commas and four spaces.\<close>
theorem parse_only_commas_witness:
  "list_all (\<lambda>c. c = CHR '','' \<or> is_space c) '' , ,, '' \<and> CHR '','' \<in> set '' , ,, ''
   \<and> parse_task_input py_lib '' , ,, '' = Inr []"
proof -
  have h: "\<forall>c\<in>set '' , ,, ''. c = CHR '','' \<or> is_space c" by (simp add: is_space_def)
  have c: "CHR '','' \<in> set '' , ,, ''" by simp
  from h have "list_all (\<lambda>c. c = CHR '','' \<or> is_space c) '' , ,, ''"
    by (simp only: list_all_iff)
  with c parse_only_commas[OF h c, of py_lib] show ?thesis by blast
qed

text \<open>
  Claim C6 as it is written fails at an input of whitespace alone: the third rule
  returns the sequence whose one element is the empty string.
\<close>
theorem parse_blank_counterexample:
  "is_space CHR '' '' \<and> is_space CHR 0x09
   \<and> parse_task_input py_lib [CHR '' '', CHR 0x09, CHR '' ''] = Inr [[]]
   \<and> parse_task_input py_lib [CHR '' '', CHR 0x09, CHR '' ''] \<noteq> Inr []"
  by (simp add: parse_task_input_def strip_def is_space_def bracket_rule_def startswith_def)

text \<open>
  Claim C7, as the code has it. For every input whose trimmed form is not empty and on
  which the first rule falls through, the parser returns a sequence and every element of
  it is a non-empty string.
\<close>
theorem parse_elements_nonempty:
  assumes "strip raw \<noteq> []" and "bracket_rule L (strip raw) = Inr None"
  shows "\<exists>ts. parse_task_input L raw = Inr ts \<and> (\<forall>t\<in>set ts. t \<noteq> [])"
  using assms by (simp add: parse_fallthrough spec_comma_pieces_def)

text \<open>The hypotheses of C7 hold at a single task with spaces around it.\<close>
theorem parse_elements_nonempty_witness:
  "strip '' Pick up the red cube '' \<noteq> []
   \<and> bracket_rule py_lib (strip '' Pick up the red cube '') = Inr None
   \<and> parse_task_input py_lib '' Pick up the red cube '' = Inr [''Pick up the red cube'']"
proof -
  have s: "strip '' Pick up the red cube '' = ''Pick up the red cube''"
    by (simp add: strip_def is_space_def)
  have b: "bracket_rule py_lib (strip '' Pick up the red cube '') = Inr None"
    unfolding s by (rule not_bracketed) simp
  have n: "strip '' Pick up the red cube '' \<noteq> []" unfolding s by simp
  from parse_elements_nonempty[OF n b] obtain ts where
    "parse_task_input py_lib '' Pick up the red cube '' = Inr ts" by blast
  moreover have "parse_task_input py_lib '' Pick up the red cube '' = Inr [''Pick up the red cube'']"
    using b by (simp add: parse_task_input_def s)
  ultimately show ?thesis using n b by simp
qed

text \<open>
  Claim C7 as it is written fails twice: the empty input gives the sequence whose one
  element is the empty string, and the first rule returns the list of a bracketed
  literal as it is, empty strings included.
\<close>
theorem parse_empty_element_counterexample:
  "parse_task_input py_lib [] = Inr [[]]
   \<and> parse_task_input py_lib [CHR ''['', CHR 0x22, CHR 0x22, CHR '']''] = Inr [[]]"
  by (simp add: parse_task_input_def strip_def is_space_def bracket_rule_def startswith_def
      endswith_def py_lib_def py_literal_eval_def)

section \<open>Properties of the record rewriter\<close>

subsection \<open>Lines and the read loops\<close>

lemma LF_is_space: "is_space LF"
  by (simp add: is_space_def)

lemma strip_line_end: "strip (d @ [LF]) = strip d"
  using strip_space_suffix[of "[LF]" d] LF_is_space by simp

lemma universal_newlines_id: "CR \<notin> set s \<Longrightarrow> universal_newlines s = s"
  by (induction s rule: universal_newlines.induct) auto

lemma text_lines_line: "LF \<notin> set x \<Longrightarrow> text_lines (x @ LF # rest) = (x @ [LF]) # text_lines rest"
  by (induction x) auto

lemma text_lines_dump:
  "\<forall>x\<in>set xs. LF \<notin> set x \<Longrightarrow> text_lines (concat (map (\<lambda>x. x @ [LF]) xs)) = map (\<lambda>x. x @ [LF]) xs"
proof (induction xs)
  case Nil
  then show ?case by simp
next
  case (Cons x xs)
  then have "text_lines (x @ LF # concat (map (\<lambda>x. x @ [LF]) xs))
      = (x @ [LF]) # text_lines (concat (map (\<lambda>x. x @ [LF]) xs))"
    by (simp add: text_lines_line)
  with Cons show ?case by simp
qed

lemma file_lines_dump_lines:
  assumes "\<forall>r\<in>set recs. LF \<notin> set (json_dumps L r) \<and> CR \<notin> set (json_dumps L r)"
  shows "file_lines (dump_lines L recs) = map (\<lambda>r. json_dumps L r @ [LF]) recs"
proof -
  have "CR \<notin> set (dump_lines L recs)"
    using assms by (auto simp: dump_lines_def)
  then have "file_lines (dump_lines L recs) = text_lines (dump_lines L recs)"
    by (simp add: file_lines_def universal_newlines_id)
  also have "\<dots> = text_lines (concat (map (\<lambda>x. x @ [LF]) (map (json_dumps L) recs)))"
    by (simp add: dump_lines_def comp_def)
  also have "\<dots> = map (\<lambda>x. x @ [LF]) (map (json_dumps L) recs)"
    using assms by (intro text_lines_dump) auto
  finally show ?thesis by (simp add: comp_def)
qed

lemma decode_dumped_lines:
  assumes "list_all (one_line_round_trip L) recs"
  shows "decode_lines L (file_lines (dump_lines L recs)) = map Inr recs"
proof -
  have a: "\<forall>r\<in>set recs. one_line_round_trip L r" using assms by (simp add: list_all_iff)
  then have "file_lines (dump_lines L recs) = map (\<lambda>r. json_dumps L r @ [LF]) recs"
    by (intro file_lines_dump_lines) (auto simp: one_line_round_trip_def Let_def)
  moreover have "json_loads L (strip (json_dumps L r @ [LF])) = Inr r" if "r \<in> set recs" for r
    using a that by (auto simp: one_line_round_trip_def Let_def strip_line_end)
  ultimately show ?thesis by (simp add: decode_lines_def comp_def)
qed


lemma read_episodes_records:
  "decode_lines L ls = map (\<lambda>kvs. Inr (JObj kvs)) objs \<Longrightarrow>
   read_episodes L T ls = Inr (map (\<lambda>kvs. JObj (AList.update ''tasks'' (JArr (map JStr T)) kvs)) objs)"
proof (induction ls arbitrary: objs)
  case Nil
  then show ?case by (simp add: decode_lines_def)
next
  case (Cons l ls)
  then obtain kvs objs' where o: "objs = kvs # objs'" by (cases objs) (auto simp: decode_lines_def)
  with Cons.prems have h: "json_loads L (strip l) = Inr (JObj kvs)"
    and t: "decode_lines L ls = map (\<lambda>kvs. Inr (JObj kvs)) objs'"
    by (auto simp: decode_lines_def)
  from Cons.IH[OF t] h o show ?case by simp
qed

lemma read_tasks_nonblank: "read_tasks L T (nonblank ls) = read_tasks L T ls"
  by (induction ls) (auto simp: nonblank_def Let_def split: sum.splits)

lemma read_tasks_records_aux:
  "\<forall>l\<in>set ls. strip l \<noteq> [] \<Longrightarrow> decode_lines L ls = map (\<lambda>kvs. Inr (JObj kvs)) objs \<Longrightarrow>
   read_tasks L T ls = Inr (map (\<lambda>kvs. JObj (AList.update ''task'' (JStr (first_task T)) kvs)) objs)"
proof (induction ls arbitrary: objs)
  case Nil
  then show ?case by (simp add: decode_lines_def)
next
  case (Cons l ls)
  then obtain kvs objs' where o: "objs = kvs # objs'" by (cases objs) (auto simp: decode_lines_def)
  with Cons.prems have h: "json_loads L (strip l) = Inr (JObj kvs)"
    and t: "decode_lines L ls = map (\<lambda>kvs. Inr (JObj kvs)) objs'"
    and n: "strip l \<noteq> []" "\<forall>l\<in>set ls. strip l \<noteq> []"
    by (auto simp: decode_lines_def)
  from Cons.IH[OF n(2) t] h o n(1) show ?case by simp
qed

lemma read_tasks_records:
  assumes "decode_lines L (nonblank ls) = map (\<lambda>kvs. Inr (JObj kvs)) objs"
  shows "read_tasks L T ls = Inr (map (\<lambda>kvs. JObj (AList.update ''task'' (JStr (first_task T)) kvs)) objs)"
proof -
  have "\<forall>l\<in>set (nonblank ls). strip l \<noteq> []" by (simp add: nonblank_def)
  from read_tasks_records_aux[OF this assms] show ?thesis
    using read_tasks_nonblank[of L T ls] by simp
qed

lemma read_episodes_blank:
  "strip l = [] \<Longrightarrow> json_loads L [] = Inl e \<Longrightarrow>
   decode_lines L before = map (\<lambda>kvs. Inr (JObj kvs)) objs \<Longrightarrow>
   read_episodes L T (before @ l # rest) = Inl e"
proof (induction before arbitrary: objs)
  case Nil
  then show ?case by simp
next
  case (Cons b bs)
  then obtain kvs objs' where o: "objs = kvs # objs'" by (cases objs) (auto simp: decode_lines_def)
  with Cons.prems have h: "json_loads L (strip b) = Inr (JObj kvs)"
    and t: "decode_lines L bs = map (\<lambda>kvs. Inr (JObj kvs)) objs'"
    by (auto simp: decode_lines_def)
  from Cons.IH[OF Cons.prems(1,2) t] h show ?case by simp
qed

lemma rewritten_as_update: "rewritten_as k v (JObj kvs) (JObj (AList.update k v kvs))"
  by (simp add: update_conv')

lemma rewritten_all:
  "list_all2 (rewritten_as k v) (map JObj objs) (map (\<lambda>kvs. JObj (AList.update k v kvs)) objs)"
  by (induction objs) (simp_all add: update_conv')

subsection \<open>The steps of a rewrite\<close>

lemma with_suffix_episodes:
  "with_suffix L (m @ [''episodes.jsonl'']) ''.jsonl.backup'' = Inr (m @ [''episodes.jsonl.backup''])"
  by (simp add: with_suffix_def suffix_of_def startswith_def Let_def)

lemma with_suffix_tasks:
  "with_suffix L (m @ [''tasks.jsonl'']) ''.jsonl.backup'' = Inr (m @ [''tasks.jsonl.backup''])"
  by (simp add: with_suffix_def suffix_of_def startswith_def Let_def)

lemma copy_target_stdout: "copy_target (w\<lparr>stdout := s\<rparr>) src dst = copy_target w src dst"
  by (simp add: copy_target_def)

lemma make_backup_ok:
  assumes "files w f = Some (File c)" and "with_suffix L f ''.jsonl.backup'' = Inr bf"
    and "files w (copy_target w f bf) \<noteq> Some Dir"
  shows "make_backup L f w =
    (Inr (), w\<lparr>files := (files w)(copy_target w f bf \<mapsto> File c),
               written := written w @ [copy_target w f bf],
               stdout := stdout w @ [''Created backup: '' @ path_str bf]\<rparr>)"
  using assms
  by (auto simp: make_backup_def copy2_def open_read_def open_write_def print_def Let_def
      split: option.splits node.splits)

lemma make_backup_dir:
  assumes "files w f = Some (File c)" and "with_suffix L f ''.jsonl.backup'' = Inr bf"
    and "files w (copy_target w f bf) = Some Dir"
  shows "\<exists>e. make_backup L f w = (Inl e, w)"
  using assms
  by (auto simp: make_backup_def copy2_def open_read_def open_write_def print_def Let_def
      split: option.splits node.splits)

lemma update_episodes_read_fails:
  assumes "files w f = Some (File c)" and "read_episodes L T (file_lines c) = Inl e"
  shows "update_episodes_jsonl L f T b w = (Inl e, w)"
  using assms by (simp add: update_episodes_jsonl_def open_read_def)

lemma update_tasks_read_fails:
  assumes "files w f = Some (File c)" and "read_tasks L T (file_lines c) = Inl e"
  shows "update_tasks_jsonl L f T b w = (Inl e, w)"
  using assms by (simp add: update_tasks_jsonl_def open_read_def)

lemma update_episodes_plain:
  assumes "files w f = Some (File c)" and "read_episodes L T (file_lines c) = Inr recs"
  shows "update_episodes_jsonl L f T False w =
    (Inr (), w\<lparr>files := (files w)(f \<mapsto> File (dump_lines L recs)),
               written := written w @ [f],
               stdout := stdout w @ [''Updated '' @ show_nat (length recs) @ '' episodes in '' @ path_str f]\<rparr>)"
  using assms by (simp add: update_episodes_jsonl_def open_read_def open_write_def print_def)

lemma update_tasks_plain:
  assumes "files w f = Some (File c)" and "read_tasks L T (file_lines c) = Inr recs"
  shows "update_tasks_jsonl L f T False w =
    (Inr (), w\<lparr>files := (files w)(f \<mapsto> File (dump_lines L recs)),
               written := written w @ [f],
               stdout := stdout w @ [''Updated '' @ show_nat (length recs) @ '' tasks in '' @ path_str f]\<rparr>)"
  using assms by (simp add: update_tasks_jsonl_def open_read_def open_write_def print_def)

lemma update_episodes_backup:
  assumes "files w f = Some (File c)" and "read_episodes L T (file_lines c) = Inr recs"
    and "with_suffix L f ''.jsonl.backup'' = Inr bf"
    and "files w (copy_target w f bf) \<noteq> Some Dir" and "copy_target w f bf \<noteq> f"
  shows "update_episodes_jsonl L f T True w =
    (Inr (), w\<lparr>files := (files w)(copy_target w f bf \<mapsto> File c, f \<mapsto> File (dump_lines L recs)),
               written := written w @ [copy_target w f bf, f],
               stdout := stdout w @ [''Created backup: '' @ path_str bf,
                 ''Updated '' @ show_nat (length recs) @ '' episodes in '' @ path_str f]\<rparr>)"
  using assms
  by (simp add: update_episodes_jsonl_def open_read_def make_backup_ok open_write_def print_def)

lemma update_tasks_backup:
  assumes "files w f = Some (File c)" and "read_tasks L T (file_lines c) = Inr recs"
    and "with_suffix L f ''.jsonl.backup'' = Inr bf"
    and "files w (copy_target w f bf) \<noteq> Some Dir" and "copy_target w f bf \<noteq> f"
  shows "update_tasks_jsonl L f T True w =
    (Inr (), w\<lparr>files := (files w)(copy_target w f bf \<mapsto> File c, f \<mapsto> File (dump_lines L recs)),
               written := written w @ [copy_target w f bf, f],
               stdout := stdout w @ [''Created backup: '' @ path_str bf,
                 ''Updated '' @ show_nat (length recs) @ '' tasks in '' @ path_str f]\<rparr>)"
  using assms
  by (simp add: update_tasks_jsonl_def open_read_def make_backup_ok open_write_def print_def)

lemma update_episodes_backup_dir:
  assumes "files w f = Some (File c)" and "read_episodes L T (file_lines c) = Inr recs"
    and "with_suffix L f ''.jsonl.backup'' = Inr bf"
    and "files w (copy_target w f bf) = Some Dir"
  shows "\<exists>e. update_episodes_jsonl L f T True w = (Inl e, w)"
  using make_backup_dir[OF assms(1,3,4)] assms(1,2)
  by (auto simp: update_episodes_jsonl_def open_read_def)

lemma update_tasks_backup_dir:
  assumes "files w f = Some (File c)" and "read_tasks L T (file_lines c) = Inr recs"
    and "with_suffix L f ''.jsonl.backup'' = Inr bf"
    and "files w (copy_target w f bf) = Some Dir"
  shows "\<exists>e. update_tasks_jsonl L f T True w = (Inl e, w)"
  using make_backup_dir[OF assms(1,3,4)] assms(1,2)
  by (auto simp: update_tasks_jsonl_def open_read_def)

subsection \<open>What a completed rewrite has done\<close>

lemma open_read_InrD: "open_read L w f = Inr c \<Longrightarrow> files w f = Some (File c)"
  by (auto simp: open_read_def split: option.splits node.splits)

lemma open_write_InrD: "open_write L w f c = Inr w' \<Longrightarrow> files w' f = Some (File c)"
  by (auto simp: open_write_def split: option.splits node.splits)

lemma files_print: "files (print l w) = files w"
  by (simp add: print_def)

lemma write_step_completed:
  assumes "(case r of
              (Inl e, w1) \<Rightarrow> (Inl e, w1)
            | (Inr u, w1) \<Rightarrow>
                (case open_write L w1 f content of
                   Inl e \<Rightarrow> (Inl e, w1)
                 | Inr w2 \<Rightarrow> (Inr (), print msg w2))) = (Inr (), w')"
  shows "files w' f = Some (File content)"
proof -
  obtain x w1 where r: "r = (x, w1)" by (cases r) auto
  show ?thesis
  proof (cases x)
    case (Inl e)
    with assms r show ?thesis by simp
  next
    case (Inr u)
    show ?thesis
    proof (cases "open_write L w1 f content")
      case (Inl e)
      with assms r Inr show ?thesis by simp
    next
      case w2: (Inr w2)
      with assms r Inr have "w' = print msg w2" by simp
      with open_write_InrD[OF w2] show ?thesis by (simp add: files_print)
    qed
  qed
qed

lemma update_episodes_completed:
  assumes "update_episodes_jsonl L f T b w = (Inr (), w')"
  shows "\<exists>c recs. files w f = Some (File c) \<and> read_episodes L T (file_lines c) = Inr recs
      \<and> files w' f = Some (File (dump_lines L recs))"
proof -
  obtain c where c: "open_read L w f = Inr c"
    using assms by (cases "open_read L w f") (simp_all add: update_episodes_jsonl_def)
  obtain recs where r: "read_episodes L T (file_lines c) = Inr recs"
    using assms c by (cases "read_episodes L T (file_lines c)") (simp_all add: update_episodes_jsonl_def)
  have "files w' f = Some (File (dump_lines L recs))"
    by (rule write_step_completed[where r = "if b then make_backup L f w else (Inr (), w)"])
       (use assms c r in \<open>simp only: update_episodes_jsonl_def sum.case\<close>)
  with open_read_InrD[OF c] r show ?thesis by blast
qed

lemma update_tasks_completed:
  assumes "update_tasks_jsonl L f T b w = (Inr (), w')"
  shows "\<exists>c recs. files w f = Some (File c) \<and> read_tasks L T (file_lines c) = Inr recs
      \<and> files w' f = Some (File (dump_lines L recs))"
proof -
  obtain c where c: "open_read L w f = Inr c"
    using assms by (cases "open_read L w f") (simp_all add: update_tasks_jsonl_def)
  obtain recs where r: "read_tasks L T (file_lines c) = Inr recs"
    using assms c by (cases "read_tasks L T (file_lines c)") (simp_all add: update_tasks_jsonl_def)
  have "files w' f = Some (File (dump_lines L recs))"
    by (rule write_step_completed[where r = "if b then make_backup L f w else (Inr (), w)"])
       (use assms c r in \<open>simp only: update_tasks_jsonl_def sum.case\<close>)
  with open_read_InrD[OF c] r show ?thesis by blast
qed

subsection \<open>The rewritten files\<close>

text \<open>
  Claim C1. Take an episodes file in which every line decodes to a JSON record, and a
  resolved task sequence \<open>T\<close>; the JSON library is taken to encode each record that is
  written on one line and to decode that line back to the record. Then the rewrite
  without backup completes, and after every rewrite that completes, re-reading the file
  yields as many records as the file had lines, in the same order, each with its
  \<^verbatim>\<open>tasks\<close> field equal to \<open>T\<close> and every other field equal to that of the original.
\<close>
theorem episodes_round_trip:
  assumes "files w f = Some (File c)"
    and "decode_lines L (file_lines c) = map (\<lambda>kvs. Inr (JObj kvs)) objs"
    and "list_all (one_line_round_trip L)
           (map (\<lambda>kvs. JObj (AList.update ''tasks'' (JArr (map JStr T)) kvs)) objs)"
  shows "\<exists>recs. length recs = length (file_lines c)
      \<and> list_all2 (rewritten_as ''tasks'' (JArr (map JStr T))) (map JObj objs) recs
      \<and> fst (update_episodes_jsonl L f T False w) = Inr ()
      \<and> (\<forall>w'. update_episodes_jsonl L f T backup w = (Inr (), w') \<longrightarrow>
            (\<exists>c'. files w' f = Some (File c') \<and> decode_lines L (file_lines c') = map Inr recs))"
proof -
  let ?recs = "map (\<lambda>kvs. JObj (AList.update ''tasks'' (JArr (map JStr T)) kvs)) objs"
  have r: "read_episodes L T (file_lines c) = Inr ?recs"
    using assms(2) by (rule read_episodes_records)
  have "length (decode_lines L (file_lines c)) = length objs"
    using assms(2) by simp
  then have n: "length ?recs = length (file_lines c)"
    by (simp add: decode_lines_def)
  have ok: "fst (update_episodes_jsonl L f T False w) = Inr ()"
    using update_episodes_plain[OF assms(1) r] by simp
  have reread: "\<exists>c'. files w' f = Some (File c') \<and> decode_lines L (file_lines c') = map Inr ?recs"
    if "update_episodes_jsonl L f T backup w = (Inr (), w')" for w'
  proof -
    from update_episodes_completed[OF that] assms(1) r
    have "files w' f = Some (File (dump_lines L ?recs))" by auto
    with decode_dumped_lines[OF assms(3)] show ?thesis by blast
  qed
  from n rewritten_all ok reread show ?thesis by blast
qed

text \<open>
  Claim C2. Take a tasks file whose non-blank lines all decode to JSON records, and a
  resolved task sequence \<open>T\<close>. Then the rewrite without backup completes, and after
  every rewrite that completes the file consists, for the non-blank lines in their
  order, of one line per record: the encoding of the record with its \<^verbatim>\<open>task\<close> field
  set to the first element of \<open>T\<close>, or to the empty string when \<open>T\<close> is empty, and
  every other field unchanged, followed by a line feed. Where the JSON library decodes
  each of these lines back to its record, re-reading the file yields these records.
\<close>
theorem tasks_rewrite:
  assumes "files w f = Some (File c)"
    and "decode_lines L (nonblank (file_lines c)) = map (\<lambda>kvs. Inr (JObj kvs)) objs"
  shows "\<exists>recs. list_all2 (rewritten_as ''task'' (JStr (if T = [] then [] else hd T))) (map JObj objs) recs
      \<and> recs = map (\<lambda>kvs. JObj (AList.update ''task'' (JStr (if T = [] then [] else hd T)) kvs)) objs
      \<and> fst (update_tasks_jsonl L f T False w) = Inr ()
      \<and> (\<forall>w'. update_tasks_jsonl L f T backup w = (Inr (), w') \<longrightarrow>
            files w' f = Some (File (concat (map (\<lambda>r. json_dumps L r @ [LF]) recs)))
            \<and> (list_all (one_line_round_trip L) recs \<longrightarrow>
                 decode_lines L (file_lines (concat (map (\<lambda>r. json_dumps L r @ [LF]) recs)))
                   = map Inr recs))"
proof -
  have ft: "first_task T = (if T = [] then [] else hd T)"
    by (cases T) (simp_all add: first_task_def)
  let ?recs = "map (\<lambda>kvs. JObj (AList.update ''task'' (JStr (first_task T)) kvs)) objs"
  have r: "read_tasks L T (file_lines c) = Inr ?recs"
    using assms(2) by (rule read_tasks_records)
  have ok: "fst (update_tasks_jsonl L f T False w) = Inr ()"
    using update_tasks_plain[OF assms(1) r] by simp
  have d: "dump_lines L ?recs = concat (map (\<lambda>r. json_dumps L r @ [LF]) ?recs)"
    by (simp only: dump_lines_def)
  have contents: "files w' f = Some (File (concat (map (\<lambda>r. json_dumps L r @ [LF]) ?recs)))"
    if "update_tasks_jsonl L f T backup w = (Inr (), w')" for w'
    using update_tasks_completed[OF that] assms(1) r unfolding d[symmetric] by auto
  have reread: "decode_lines L (file_lines (concat (map (\<lambda>r. json_dumps L r @ [LF]) ?recs)))
      = map Inr ?recs" if "list_all (one_line_round_trip L) ?recs"
    using decode_dumped_lines[OF that] unfolding d .
  have "list_all2 (rewritten_as ''task'' (JStr (first_task T))) (map JObj objs) ?recs"
    by (rule rewritten_all)
  with ok contents reread show ?thesis unfolding ft by blast
qed


lemma example_episode_lines:
  "file_lines example_episodes =
     [''{\"episode_index\":0,\"tasks\":[\"old\"]}'' @ [LF],
      ''{\"episode_index\":1,\"tasks\":[\"old\"]}'' @ [LF]]"
  by (simp add: example_episodes_def file_lines_def)

lemma example_episodes_decoded:
  "decode_lines py_lib (file_lines example_episodes) =
     map (\<lambda>kvs. Inr (JObj kvs))
       [[(''episode_index'', JInt 0), (''tasks'', JArr [JStr ''old''])],
        [(''episode_index'', JInt 1), (''tasks'', JArr [JStr ''old''])]]"
  unfolding example_episode_lines by code_simp

text \<open>
  The hypotheses of C1 hold for the two episodes of the specification's scenario, with
  the sample library and the task \<^verbatim>\<open>Pick up the red cube\<close>.
\<close>
theorem episodes_round_trip_witness:
  "files example_world [''data'', ''meta'', ''episodes.jsonl''] = Some (File example_episodes)
   \<and> decode_lines py_lib (file_lines example_episodes) =
       map (\<lambda>kvs. Inr (JObj kvs))
         [[(''episode_index'', JInt 0), (''tasks'', JArr [JStr ''old''])],
          [(''episode_index'', JInt 1), (''tasks'', JArr [JStr ''old''])]]
   \<and> list_all (one_line_round_trip py_lib)
         (map (\<lambda>kvs. JObj (AList.update ''tasks'' (JArr (map JStr [''Pick up the red cube''])) kvs))
           [[(''episode_index'', JInt 0), (''tasks'', JArr [JStr ''old''])],
            [(''episode_index'', JInt 1), (''tasks'', JArr [JStr ''old''])]])
   \<and> (\<exists>recs. length recs = length (file_lines example_episodes)
      \<and> list_all2 (rewritten_as ''tasks'' (JArr (map JStr [''Pick up the red cube''])))
           (map JObj [[(''episode_index'', JInt 0), (''tasks'', JArr [JStr ''old''])],
                      [(''episode_index'', JInt 1), (''tasks'', JArr [JStr ''old''])]]) recs
      \<and> fst (update_episodes_jsonl py_lib [''data'', ''meta'', ''episodes.jsonl'']
                [''Pick up the red cube''] False example_world) = Inr ()
      \<and> (\<forall>w'. update_episodes_jsonl py_lib [''data'', ''meta'', ''episodes.jsonl'']
                [''Pick up the red cube''] False example_world = (Inr (), w') \<longrightarrow>
            (\<exists>c'. files w' [''data'', ''meta'', ''episodes.jsonl''] = Some (File c')
               \<and> decode_lines py_lib (file_lines c') = map Inr recs)))"
proof -
  have h1: "files example_world [''data'', ''meta'', ''episodes.jsonl''] = Some (File example_episodes)"
    by (simp add: example_world_def)
  have h3: "list_all (one_line_round_trip py_lib)
         (map (\<lambda>kvs. JObj (AList.update ''tasks'' (JArr (map JStr [''Pick up the red cube''])) kvs))
           [[(''episode_index'', JInt 0), (''tasks'', JArr [JStr ''old''])],
            [(''episode_index'', JInt 1), (''tasks'', JArr [JStr ''old''])]])"
    by code_simp
  from episodes_round_trip[OF h1 example_episodes_decoded h3, of False]
    h1 example_episodes_decoded h3
  show ?thesis by blast
qed

text \<open>The episodes file of the scenario after the rewrite, as the specification gives it.\<close>
lemma example_world_rewritten:
  "files (snd (update_episodes_jsonl py_lib [''data'', ''meta'', ''episodes.jsonl'']
                [''Pick up the red cube''] False example_world))
     [''data'', ''meta'', ''episodes.jsonl'']
   = Some (File (''{\"episode_index\": 0, \"tasks\": [\"Pick up the red cube\"]}'' @ [LF] @
                 ''{\"episode_index\": 1, \"tasks\": [\"Pick up the red cube\"]}'' @ [LF]))"
  by code_simp

lemma example_tasks_decoded:
  "decode_lines py_lib (nonblank (file_lines example_tasks)) =
     map (\<lambda>kvs. Inr (JObj kvs)) [[(''task_index'', JInt 0), (''task'', JStr ''old'')]]"
  by code_simp

text \<open>
  The hypotheses of C2 hold for the task record of the specification's scenario, with
  the sample library and the tasks \<^verbatim>\<open>Pick\<close>, \<^verbatim>\<open>Place\<close>: the file is rewritten to the
  one line that the specification gives, and the sample library decodes it back.
\<close>
theorem tasks_rewrite_witness:
  "files example_world [''data'', ''meta'', ''tasks.jsonl''] = Some (File example_tasks)
   \<and> decode_lines py_lib (nonblank (file_lines example_tasks)) =
       map (\<lambda>kvs. Inr (JObj kvs)) [[(''task_index'', JInt 0), (''task'', JStr ''old'')]]
   \<and> list_all (one_line_round_trip py_lib) [JObj [(''task_index'', JInt 0), (''task'', JStr ''Pick'')]]
   \<and> fst (update_tasks_jsonl py_lib [''data'', ''meta'', ''tasks.jsonl'']
                [''Pick'', ''Place''] False example_world) = Inr ()
   \<and> files (snd (update_tasks_jsonl py_lib [''data'', ''meta'', ''tasks.jsonl'']
                [''Pick'', ''Place''] False example_world)) [''data'', ''meta'', ''tasks.jsonl'']
       = Some (File (''{\"task_index\": 0, \"task\": \"Pick\"}'' @ [LF]))
   \<and> decode_lines py_lib (file_lines (''{\"task_index\": 0, \"task\": \"Pick\"}'' @ [LF]))
       = [Inr (JObj [(''task_index'', JInt 0), (''task'', JStr ''Pick'')])]"
proof -
  let ?f = "[''data'', ''meta'', ''tasks.jsonl'']"
  let ?T = "[''Pick'', ''Place'']"
  let ?w' = "snd (update_tasks_jsonl py_lib ?f ?T False example_world)"
  have h1: "files example_world ?f = Some (File example_tasks)"
    by (simp add: example_world_def)
  have rt: "list_all (one_line_round_trip py_lib) [JObj [(''task_index'', JInt 0), (''task'', JStr ''Pick'')]]"
    by code_simp
  have enc: "concat (map (\<lambda>r. json_dumps py_lib r @ [LF])
               [JObj [(''task_index'', JInt 0), (''task'', JStr ''Pick'')]])
             = ''{\"task_index\": 0, \"task\": \"Pick\"}'' @ [LF]"
    by code_simp
  from tasks_rewrite[OF h1 example_tasks_decoded, of ?T False]
  have ok: "fst (update_tasks_jsonl py_lib ?f ?T False example_world) = Inr ()"
    and all: "\<forall>w'. update_tasks_jsonl py_lib ?f ?T False example_world = (Inr (), w') \<longrightarrow>
            files w' ?f = Some (File (concat (map (\<lambda>r. json_dumps py_lib r @ [LF])
               [JObj [(''task_index'', JInt 0), (''task'', JStr ''Pick'')]])))
            \<and> (list_all (one_line_round_trip py_lib) [JObj [(''task_index'', JInt 0), (''task'', JStr ''Pick'')]] \<longrightarrow>
                 decode_lines py_lib (file_lines (concat (map (\<lambda>r. json_dumps py_lib r @ [LF])
                    [JObj [(''task_index'', JInt 0), (''task'', JStr ''Pick'')]])))
                   = map Inr [JObj [(''task_index'', JInt 0), (''task'', JStr ''Pick'')]])"
    by simp_all
  from ok have run: "update_tasks_jsonl py_lib ?f ?T False example_world = (Inr (), ?w')"
    by (simp add: prod_eq_iff)
  from all[rule_format, OF run] rt
  have "files ?w' ?f = Some (File (''{\"task_index\": 0, \"task\": \"Pick\"}'' @ [LF]))"
    and "decode_lines py_lib (file_lines (''{\"task_index\": 0, \"task\": \"Pick\"}'' @ [LF]))
       = [Inr (JObj [(''task_index'', JInt 0), (''task'', JStr ''Pick'')])]"
    unfolding enc by simp_all
  with h1 example_tasks_decoded rt ok show ?thesis by (intro conjI)
qed


text \<open>The tasks file of the scenario after that rewrite: the first task only.\<close>
lemma example_world_tasks_rewritten:
  "files (snd (update_tasks_jsonl py_lib [''data'', ''meta'', ''tasks.jsonl'']
                [''Pick'', ''Place''] False example_world))
     [''data'', ''meta'', ''tasks.jsonl'']
   = Some (File (''{\"task_index\": 0, \"task\": \"Pick\"}'' @ [LF]))"
  by code_simp

section \<open>Properties of the orchestrator\<close>

text \<open>
  Claim C3. When the dataset directory, its \<^verbatim>\<open>meta\<close> subdirectory, the episodes file
  or the tasks file does not exist, the run ends with exit code 1; it has printed one
  line, the error message that names the first missing path in the order of the checks,
  and it has changed nothing else: no file is modified.
\<close>
theorem missing_path_aborts:
  assumes "\<not> (exists w d \<and> exists w (d @ [''meta''])
              \<and> exists w (d @ [''meta'', ''episodes.jsonl''])
              \<and> exists w (d @ [''meta'', ''tasks.jsonl'']))"
  shows "\<exists>what p. first_missing w d = Some (what, p) \<and> \<not> exists w p
      \<and> main L d raw backup w =
          (1, w\<lparr>stdout := stdout w @ [cross_mark @ '' Error: '' @ what @ '' not found: '' @ path_str p]\<rparr>)"
proof (cases "exists w d")
  case False
  then show ?thesis
    by (simp add: first_missing_def main_def change_task_description_def print_def)
next
  case d: True
  show ?thesis
  proof (cases "exists w (d @ [''meta''])")
    case False
    with d show ?thesis
      by (simp add: first_missing_def main_def change_task_description_def print_def)
  next
    case m: True
    show ?thesis
    proof (cases "exists w (d @ [''meta'', ''episodes.jsonl''])")
      case False
      with d m show ?thesis
        by (simp add: first_missing_def main_def change_task_description_def print_def)
    next
      case e: True
      with assms d m have "\<not> exists w (d @ [''meta'', ''tasks.jsonl''])" by simp
      with d m e show ?thesis
        by (simp add: first_missing_def main_def change_task_description_def print_def)
    qed
  qed
qed

text \<open>
  The hypothesis of C3 holds in the specification's scenario of a dataset without its
  \<^verbatim>\<open>meta\<close> subdirectory, and the message names \<^verbatim>\<open>data/meta\<close>.
\<close>
theorem missing_path_aborts_witness:
  "\<not> (exists no_meta_world [''data''] \<and> exists no_meta_world ([''data''] @ [''meta''])
       \<and> exists no_meta_world ([''data''] @ [''meta'', ''episodes.jsonl''])
       \<and> exists no_meta_world ([''data''] @ [''meta'', ''tasks.jsonl'']))
   \<and> first_missing no_meta_world [''data''] = Some (''Meta directory'', [''data'', ''meta''])
   \<and> main py_lib [''data''] ''Pick up the red cube'' False no_meta_world =
       (1, no_meta_world\<lparr>stdout := [cross_mark @ '' Error: Meta directory not found: data/meta'']\<rparr>)"
proof -
  have h: "\<not> (exists no_meta_world [''data''] \<and> exists no_meta_world ([''data''] @ [''meta''])
       \<and> exists no_meta_world ([''data''] @ [''meta'', ''episodes.jsonl''])
       \<and> exists no_meta_world ([''data''] @ [''meta'', ''tasks.jsonl'']))"
    by (simp add: exists_def no_meta_world_def)
  have f: "first_missing no_meta_world [''data''] = Some (''Meta directory'', [''data'', ''meta''])"
    by (simp add: first_missing_def exists_def no_meta_world_def)
  from missing_path_aborts[OF h, of py_lib "''Pick up the red cube''" False] f
  have "main py_lib [''data''] ''Pick up the red cube'' False no_meta_world =
       (1, no_meta_world\<lparr>stdout := stdout no_meta_world
          @ [cross_mark @ '' Error: '' @ ''Meta directory'' @ '' not found: '' @ path_str [''data'', ''meta'']]\<rparr>)"
    by auto
  then have "main py_lib [''data''] ''Pick up the red cube'' False no_meta_world =
       (1, no_meta_world\<lparr>stdout := [cross_mark @ '' Error: Meta directory not found: data/meta'']\<rparr>)"
    by (simp add: path_str_def no_meta_world_def)
  with h f show ?thesis by blast
qed

lemma files_announced: "files (announced L d T b w) = files w"
  by (simp add: announced_def print_def)

lemma written_announced: "written (announced L d T b w) = written w"
  by (simp add: announced_def print_def)

lemma files_concluded: "files (concluded b w) = files w"
  by (simp add: concluded_def print_def Let_def)

lemma written_concluded: "written (concluded b w) = written w"
  by (simp add: concluded_def print_def Let_def)

lemma written_print: "written (print l w) = written w"
  by (simp add: print_def)

lemma copy_target_announced:
  "copy_target (announced L d T b w) src dst = copy_target w src dst"
  by (simp add: copy_target_def files_announced)

lemma change_task_description_steps:
  assumes "exists w d" and "exists w (d @ [''meta''])"
    and "exists w (d @ [''meta'', ''episodes.jsonl''])"
    and "exists w (d @ [''meta'', ''tasks.jsonl''])"
    and "resolve L arg = Inr T"
  shows "change_task_description L d arg b w =
    (case update_episodes_jsonl L (d @ [''meta'', ''episodes.jsonl'']) T b (announced L d T b w) of
       (Inl e, w5) \<Rightarrow> (Inl e, w5)
     | (Inr u, w5) \<Rightarrow>
         (case update_tasks_jsonl L (d @ [''meta'', ''tasks.jsonl'']) T b w5 of
            (Inl e, w6) \<Rightarrow> (Inl e, w6)
          | (Inr u, w6) \<Rightarrow> (Inr (), concluded b w6)))"
  using assms
  by (simp add: change_task_description_def resolve_def[symmetric] announced_def concluded_def Let_def
      split: prod.splits sum.splits)

lemma change_task_description_resolve_fails:
  assumes "exists w d" and "exists w (d @ [''meta''])"
    and "exists w (d @ [''meta'', ''episodes.jsonl''])"
    and "exists w (d @ [''meta'', ''tasks.jsonl''])"
    and "resolve L arg = Inl e"
  shows "change_task_description L d arg b w = (Inl e, print (''Dataset directory: '' @ path_str d) w)"
  using assms
  by (simp add: change_task_description_def resolve_def[symmetric] Let_def)

lemma with_suffix_episodes_path:
  "with_suffix L (d @ [''meta'', ''episodes.jsonl'']) ''.jsonl.backup''
     = Inr (d @ [''meta'', ''episodes.jsonl.backup''])"
  using with_suffix_episodes[of L "d @ [''meta'']"] by simp

lemma with_suffix_tasks_path:
  "with_suffix L (d @ [''meta'', ''tasks.jsonl'']) ''.jsonl.backup''
     = Inr (d @ [''meta'', ''tasks.jsonl.backup''])"
  using with_suffix_tasks[of L "d @ [''meta'']"] by simp

lemma copy_target_cases:
  "copy_target w src dst = dst \<or> copy_target w src dst = dst @ [last src]"
  by (simp add: copy_target_def)

lemma episodes_copy_target_fresh:
  "copy_target w (d @ [''meta'', ''episodes.jsonl'']) (d @ [''meta'', ''episodes.jsonl.backup''])
     \<notin> {d, d @ [''meta''], d @ [''meta'', ''episodes.jsonl''], d @ [''meta'', ''tasks.jsonl''],
         d @ [''meta'', ''tasks.jsonl.backup''],
         d @ [''meta'', ''tasks.jsonl.backup'', ''tasks.jsonl'']}"
  by (simp add: copy_target_def)

lemma tasks_copy_target_fresh:
  "copy_target w (d @ [''meta'', ''tasks.jsonl'']) (d @ [''meta'', ''tasks.jsonl.backup''])
     \<notin> {d, d @ [''meta''], d @ [''meta'', ''episodes.jsonl''], d @ [''meta'', ''tasks.jsonl''],
         d @ [''meta'', ''episodes.jsonl.backup''],
         d @ [''meta'', ''episodes.jsonl.backup'', ''episodes.jsonl'']}"
  by (simp add: copy_target_def)

lemma main_aborts:
  "change_task_description L d (RawText raw) b w = (Inl e, w') \<Longrightarrow>
   main L d raw b w = (1, print (cross_mark @ '' Error: '' @ snd e) w')"
  by (simp add: main_def)

lemma main_completes:
  "change_task_description L d (RawText raw) b w = (Inr (), w') \<Longrightarrow> main L d raw b w = (0, w')"
  by (simp add: main_def)

lemma update_episodes_outcome:
  assumes "files w f = Some (File c)" and "read_episodes L T (file_lines c) = Inr recs"
    and "with_suffix L f ''.jsonl.backup'' = Inr bf"
    and "b \<longrightarrow> files w (copy_target w f bf) \<noteq> Some Dir" and "copy_target w f bf \<noteq> f"
  shows "\<exists>w'. update_episodes_jsonl L f T b w = (Inr (), w')
     \<and> files w' = (if b then (files w)(copy_target w f bf \<mapsto> File c, f \<mapsto> File (dump_lines L recs))
                    else (files w)(f \<mapsto> File (dump_lines L recs)))
     \<and> written w' = written w @ (if b then [copy_target w f bf, f] else [f])"
proof (cases b)
  case False
  then show ?thesis by (simp add: update_episodes_plain[OF assms(1,2)])
next
  case True
  with assms(4) have "files w (copy_target w f bf) \<noteq> Some Dir" by simp
  from update_episodes_backup[OF assms(1,2,3) this assms(5)] True show ?thesis by simp
qed

lemma update_tasks_outcome:
  assumes "files w f = Some (File c)" and "read_tasks L T (file_lines c) = Inr recs"
    and "with_suffix L f ''.jsonl.backup'' = Inr bf"
    and "b \<longrightarrow> files w (copy_target w f bf) \<noteq> Some Dir" and "copy_target w f bf \<noteq> f"
  shows "\<exists>w'. update_tasks_jsonl L f T b w = (Inr (), w')
     \<and> files w' = (if b then (files w)(copy_target w f bf \<mapsto> File c, f \<mapsto> File (dump_lines L recs))
                    else (files w)(f \<mapsto> File (dump_lines L recs)))
     \<and> written w' = written w @ (if b then [copy_target w f bf, f] else [f])"
proof (cases b)
  case False
  then show ?thesis by (simp add: update_tasks_plain[OF assms(1,2)])
next
  case True
  with assms(4) have "files w (copy_target w f bf) \<noteq> Some Dir" by simp
  from update_tasks_backup[OF assms(1,2,3) this assms(5)] True show ?thesis by simp
qed

lemma example_task_parsed: "parse_task_input py_lib ''Pick up the red cube'' = Inr [''Pick up the red cube'']"
  by code_simp

lemma example_episodes_read: "read_episodes py_lib [''Pick up the red cube''] (file_lines example_episodes) =
    Inr [JObj [(''episode_index'', JInt 0), (''tasks'', JArr [JStr ''Pick up the red cube''])],
         JObj [(''episode_index'', JInt 1), (''tasks'', JArr [JStr ''Pick up the red cube''])]]"
  by code_simp

lemma bad_tasks_read: "read_tasks py_lib [''Pick up the red cube''] (file_lines bad_tasks) =
    Inl (JSONDecodeError,
         ''Expecting property name enclosed in double quotes: line 1 column 17 (char 16)'')"
  by code_simp

lemma bad_tasks_backup_free: "files bad_tasks_world
     (copy_target bad_tasks_world ([''data''] @ [''meta'', ''episodes.jsonl''])
        ([''data''] @ [''meta'', ''episodes.jsonl.backup''])) \<noteq> Some Dir"
  by code_simp

text \<open>
  Claim C8 at an input on which the code departs from it. With an empty line between
  the two episodes the run ends with exit code 1, on the decoder's error for the empty
  text, and has written nothing, where the claim has the line skipped silently; the read
  loop of the tasks file does skip the same empty line.
\<close>
theorem episodes_blank_line_aborts:
  "fst (main py_lib [''data''] ''Pick up the red cube'' True blank_line_world) = 1
   \<and> stdout (snd (main py_lib [''data''] ''Pick up the red cube'' True blank_line_world)) =
       [''Dataset directory: data'',
        ''New task descriptions: ['' @ [CHR 0x27] @ ''Pick up the red cube'' @ [CHR 0x27] @ '']'',
        ''Backup files will be created'', [],
        cross_mark @ '' Error: Expecting value: line 1 column 1 (char 0)'']
   \<and> written (snd (main py_lib [''data''] ''Pick up the red cube'' True blank_line_world)) = []
   \<and> read_tasks py_lib [''Pick up the red cube''] (file_lines blank_line_tasks) =
       Inr [JObj [(''task_index'', JInt 0), (''task'', JStr ''Pick up the red cube'')]]"
  by code_simp

subsection \<open>Completed runs\<close>


lemma change_task_description_completedD:
  assumes "change_task_description L d arg b w = (Inr (), w')"
  shows "exists w d \<and> exists w (d @ [''meta''])
     \<and> exists w (d @ [''meta'', ''episodes.jsonl''])
     \<and> exists w (d @ [''meta'', ''tasks.jsonl''])
     \<and> (\<exists>T. resolve L arg = Inr T)"
proof -
  have 1: "exists w d"
    using assms by (cases "exists w d") (simp_all add: change_task_description_def)
  have 2: "exists w (d @ [''meta''])"
    using assms 1 by (cases "exists w (d @ [''meta''])") (simp_all add: change_task_description_def)
  have 3: "exists w (d @ [''meta'', ''episodes.jsonl''])"
    using assms 1 2
    by (cases "exists w (d @ [''meta'', ''episodes.jsonl''])") (simp_all add: change_task_description_def)
  have 4: "exists w (d @ [''meta'', ''tasks.jsonl''])"
    using assms 1 2 3
    by (cases "exists w (d @ [''meta'', ''tasks.jsonl''])") (simp_all add: change_task_description_def)
  have "\<exists>T. resolve L arg = Inr T"
  proof (cases "resolve L arg")
    case (Inl e)
    from change_task_description_resolve_fails[OF 1 2 3 4 Inl, of b] assms show ?thesis by simp
  next
    case (Inr T)
    then show ?thesis by blast
  qed
  with 1 2 3 4 show ?thesis by blast
qed

lemma change_task_description_completed_steps:
  assumes "change_task_description L d arg b w = (Inr (), w')"
  shows "\<exists>T w5 w6. resolve L arg = Inr T
     \<and> update_episodes_jsonl L (d @ [''meta'', ''episodes.jsonl'']) T b (announced L d T b w) = (Inr (), w5)
     \<and> update_tasks_jsonl L (d @ [''meta'', ''tasks.jsonl'']) T b w5 = (Inr (), w6)
     \<and> w' = concluded b w6"
proof -
  from change_task_description_completedD[OF assms] obtain T where
    ex: "exists w d" "exists w (d @ [''meta''])" "exists w (d @ [''meta'', ''episodes.jsonl''])"
      "exists w (d @ [''meta'', ''tasks.jsonl''])" and T: "resolve L arg = Inr T" by blast
  note steps = change_task_description_steps[OF ex T, of b]
  obtain x w5 where u: "update_episodes_jsonl L (d @ [''meta'', ''episodes.jsonl'']) T b
      (announced L d T b w) = (x, w5)"
    by (cases "update_episodes_jsonl L (d @ [''meta'', ''episodes.jsonl'']) T b (announced L d T b w)") auto
  have x: "x = Inr ()" using assms steps u by (cases x) simp_all
  obtain y w6 where v: "update_tasks_jsonl L (d @ [''meta'', ''tasks.jsonl'']) T b w5 = (y, w6)"
    by (cases "update_tasks_jsonl L (d @ [''meta'', ''tasks.jsonl'']) T b w5") auto
  have y: "y = Inr ()" using assms steps u v unfolding x by (cases y) simp_all
  have "w' = concluded b w6" using assms steps u v unfolding x y by simp
  with T u v x y show ?thesis by blast
qed

lemma completed_run:
  assumes "change_task_description L d arg b w = (Inr (), w')"
  shows "\<exists>T ec tc re rt. resolve L arg = Inr T
     \<and> files w (d @ [''meta'', ''episodes.jsonl'']) = Some (File ec)
     \<and> files w (d @ [''meta'', ''tasks.jsonl'']) = Some (File tc)
     \<and> read_episodes L T (file_lines ec) = Inr re
     \<and> read_tasks L T (file_lines tc) = Inr rt
     \<and> files w' =
         (if b then (files w)
            (copy_target w (d @ [''meta'', ''episodes.jsonl'']) (d @ [''meta'', ''episodes.jsonl.backup''])
               \<mapsto> File ec,
             d @ [''meta'', ''episodes.jsonl''] \<mapsto> File (dump_lines L re),
             copy_target w (d @ [''meta'', ''tasks.jsonl'']) (d @ [''meta'', ''tasks.jsonl.backup''])
               \<mapsto> File tc,
             d @ [''meta'', ''tasks.jsonl''] \<mapsto> File (dump_lines L rt))
          else (files w)
            (d @ [''meta'', ''episodes.jsonl''] \<mapsto> File (dump_lines L re),
             d @ [''meta'', ''tasks.jsonl''] \<mapsto> File (dump_lines L rt)))
     \<and> written w' = written w @
         (if b then
            [copy_target w (d @ [''meta'', ''episodes.jsonl'']) (d @ [''meta'', ''episodes.jsonl.backup'']),
             d @ [''meta'', ''episodes.jsonl''],
             copy_target w (d @ [''meta'', ''tasks.jsonl'']) (d @ [''meta'', ''tasks.jsonl.backup'']),
             d @ [''meta'', ''tasks.jsonl'']]
          else [d @ [''meta'', ''episodes.jsonl''], d @ [''meta'', ''tasks.jsonl'']])"
proof -
  let ?ef = "d @ [''meta'', ''episodes.jsonl'']"
  let ?tf = "d @ [''meta'', ''tasks.jsonl'']"
  let ?ebf = "d @ [''meta'', ''episodes.jsonl.backup'']"
  let ?tbf = "d @ [''meta'', ''tasks.jsonl.backup'']"
  let ?te = "copy_target w ?ef ?ebf"
  let ?tt = "copy_target w ?tf ?tbf"
  from change_task_description_completed_steps[OF assms] obtain T w5 w6 where
    T: "resolve L arg = Inr T"
    and u: "update_episodes_jsonl L ?ef T b (announced L d T b w) = (Inr (), w5)"
    and v: "update_tasks_jsonl L ?tf T b w5 = (Inr (), w6)"
    and w': "w' = concluded b w6" by blast
  let ?a = "announced L d T b w"
  \<comment> \<open>the episodes rewrite\<close>
  from update_episodes_completed[OF u] obtain ec re where
    ec: "files ?a ?ef = Some (File ec)" and re: "read_episodes L T (file_lines ec) = Inr re"
    by blast
  have nd: "b \<longrightarrow> files ?a (copy_target ?a ?ef ?ebf) \<noteq> Some Dir"
  proof (intro impI notI)
    assume b and dir: "files ?a (copy_target ?a ?ef ?ebf) = Some Dir"
    from update_episodes_backup_dir[OF ec re with_suffix_episodes_path dir] u \<open>b\<close>
    show False by auto
  qed
  have fe: "copy_target ?a ?ef ?ebf \<noteq> ?ef"
    using episodes_copy_target_fresh[of w d] by (simp add: copy_target_announced)
  from update_episodes_outcome[OF ec re with_suffix_episodes_path nd fe] u
  have f5': "files w5 = (if b then (files ?a)(copy_target ?a ?ef ?ebf \<mapsto> File ec, ?ef \<mapsto> File (dump_lines L re))
                    else (files ?a)(?ef \<mapsto> File (dump_lines L re)))"
    and w5': "written w5 = written ?a @ (if b then [copy_target ?a ?ef ?ebf, ?ef] else [?ef])"
    by auto
  have f5: "files w5 = (if b then (files w)(?te \<mapsto> File ec, ?ef \<mapsto> File (dump_lines L re))
                    else (files w)(?ef \<mapsto> File (dump_lines L re)))"
    using f5' by (simp only: files_announced copy_target_announced)
  have w5: "written w5 = written w @ (if b then [?te, ?ef] else [?ef])"
    using w5' by (simp only: written_announced copy_target_announced)
  \<comment> \<open>the tasks rewrite\<close>
  from update_tasks_completed[OF v] obtain tc rt where
    tc5: "files w5 ?tf = Some (File tc)" and rt: "read_tasks L T (file_lines tc) = Inr rt"
    by blast
  have same: "files w5 ?tf = files w ?tf" "files w5 ?tbf = files w ?tbf"
    using f5 episodes_copy_target_fresh[of w d] by auto
  have tt5: "copy_target w5 ?tf ?tbf = ?tt"
    using same by (simp add: copy_target_def)
  have nd2: "b \<longrightarrow> files w5 (copy_target w5 ?tf ?tbf) \<noteq> Some Dir"
  proof (intro impI notI)
    assume b and dir: "files w5 (copy_target w5 ?tf ?tbf) = Some Dir"
    from update_tasks_backup_dir[OF tc5 rt with_suffix_tasks_path dir] v \<open>b\<close>
    show False by auto
  qed
  have ft: "copy_target w5 ?tf ?tbf \<noteq> ?tf"
    unfolding tt5 using tasks_copy_target_fresh[of w d] by simp
  from update_tasks_outcome[OF tc5 rt with_suffix_tasks_path nd2 ft] v
  have f6': "files w6 = (if b then (files w5)(copy_target w5 ?tf ?tbf \<mapsto> File tc, ?tf \<mapsto> File (dump_lines L rt))
                    else (files w5)(?tf \<mapsto> File (dump_lines L rt)))"
    and w6': "written w6 = written w5 @ (if b then [copy_target w5 ?tf ?tbf, ?tf] else [?tf])"
    by auto
  have f6: "files w' = (if b then (files w)(?te \<mapsto> File ec, ?ef \<mapsto> File (dump_lines L re),
                                  ?tt \<mapsto> File tc, ?tf \<mapsto> File (dump_lines L rt))
                    else (files w)(?ef \<mapsto> File (dump_lines L re), ?tf \<mapsto> File (dump_lines L rt)))"
    using f6' f5 by (simp add: w' files_concluded tt5)
  have w6: "written w' = written w @ (if b then [?te, ?ef, ?tt, ?tf] else [?ef, ?tf])"
    using w6' w5 by (simp add: w' written_concluded tt5)
  have ecw: "files w ?ef = Some (File ec)" using ec by (simp add: files_announced)
  have tcw: "files w ?tf = Some (File tc)" using tc5 same by simp
  from T ecw tcw re rt f6 w6 show ?thesis by blast
qed

subsection \<open>The order of the writes\<close>

lemma make_backup_result:
  assumes "files w f = Some (File c)"
  shows "(\<exists>e. make_backup L f w = (Inl e, w))
     \<or> (\<exists>w1 t. make_backup L f w = (Inr (), w1) \<and> files w1 = (files w)(t \<mapsto> File c))"
proof (cases "with_suffix L f ''.jsonl.backup''")
  case (Inl e)
  then show ?thesis by (simp add: make_backup_def)
next
  case (Inr bf)
  show ?thesis
  proof (cases "files w (copy_target w f bf) = Some Dir")
    case True
    from make_backup_dir[OF assms Inr True] show ?thesis by blast
  next
    case False
    from make_backup_ok[OF assms Inr False]
    have "\<exists>w1. make_backup L f w = (Inr (), w1)
        \<and> files w1 = (files w)(copy_target w f bf \<mapsto> File c)" by simp
    then show ?thesis by blast
  qed
qed

lemma open_write_file:
  "files w f = Some (File c) \<Longrightarrow> \<exists>w'. open_write L w f c' = Inr w'"
  by (simp add: open_write_def)

lemma write_step_fails:
  assumes "(case r of
              (Inl e, w1) \<Rightarrow> (Inl e, w1)
            | (Inr u, w1) \<Rightarrow>
                (case open_write L w1 f content of
                   Inl e \<Rightarrow> (Inl e, w1)
                 | Inr w2 \<Rightarrow> (Inr (), print msg w2))) = (Inl e, w')"
    and "(\<exists>e. r = (Inl e, w)) \<or> (\<exists>w1 c. r = (Inr (), w1) \<and> files w1 f = Some (File c))"
  shows "w' = w"
  using assms(2)
proof
  assume "\<exists>e. r = (Inl e, w)"
  with assms(1) show ?thesis by auto
next
  assume "\<exists>w1 c. r = (Inr (), w1) \<and> files w1 f = Some (File c)"
  then obtain w1 c where r: "r = (Inr (), w1)" and f: "files w1 f = Some (File c)" by blast
  from open_write_file[OF f, of L content] obtain w2 where "open_write L w1 f content = Inr w2"
    by blast
  with assms(1) r show ?thesis by simp
qed

lemma backup_step_result:
  assumes "files w f = Some (File c)"
  shows "(\<exists>e. (if b then make_backup L f w else (Inr (), w)) = (Inl e, w))
     \<or> (\<exists>w1 c'. (if b then make_backup L f w else (Inr (), w)) = (Inr (), w1)
            \<and> files w1 f = Some (File c'))"
proof (cases b)
  case False
  with assms show ?thesis by simp
next
  case True
  from make_backup_result[OF assms, of L] show ?thesis
  proof
    assume "\<exists>e. make_backup L f w = (Inl e, w)"
    with True show ?thesis by simp
  next
    assume "\<exists>w1 t. make_backup L f w = (Inr (), w1) \<and> files w1 = (files w)(t \<mapsto> File c)"
    then obtain w1 t where m: "make_backup L f w = (Inr (), w1)"
      and f1: "files w1 = (files w)(t \<mapsto> File c)" by blast
    have "\<exists>c'. files w1 f = Some (File c')" using f1 assms by (cases "t = f") simp_all
    with m True show ?thesis by simp
  qed
qed

lemma update_episodes_fails:
  assumes "update_episodes_jsonl L f T b w = (Inl e, w')"
  shows "w' = w"
proof (cases "open_read L w f")
  case (Inl e')
  with assms show ?thesis by (simp add: update_episodes_jsonl_def)
next
  case c: (Inr c)
  show ?thesis
  proof (cases "read_episodes L T (file_lines c)")
    case (Inl e')
    with assms c show ?thesis by (simp add: update_episodes_jsonl_def)
  next
    case r: (Inr recs)
    show ?thesis
      by (rule write_step_fails[where r = "if b then make_backup L f w else (Inr (), w)"])
         (use assms c r in \<open>simp only: update_episodes_jsonl_def sum.case\<close>,
          rule backup_step_result[OF open_read_InrD[OF c]])
  qed
qed

lemma update_tasks_fails:
  assumes "update_tasks_jsonl L f T b w = (Inl e, w')"
  shows "w' = w"
proof (cases "open_read L w f")
  case (Inl e')
  with assms show ?thesis by (simp add: update_tasks_jsonl_def)
next
  case c: (Inr c)
  show ?thesis
  proof (cases "read_tasks L T (file_lines c)")
    case (Inl e')
    with assms c show ?thesis by (simp add: update_tasks_jsonl_def)
  next
    case r: (Inr recs)
    show ?thesis
      by (rule write_step_fails[where r = "if b then make_backup L f w else (Inr (), w)"])
         (use assms c r in \<open>simp only: update_tasks_jsonl_def sum.case\<close>,
          rule backup_step_result[OF open_read_InrD[OF c]])
  qed
qed

lemma change_task_description_missing:
  assumes "\<not> (exists w d \<and> exists w (d @ [''meta''])
              \<and> exists w (d @ [''meta'', ''episodes.jsonl''])
              \<and> exists w (d @ [''meta'', ''tasks.jsonl'']))"
  shows "\<exists>e. change_task_description L d arg b w = (Inl e, w)"
proof (cases "exists w d")
  case False
  then show ?thesis by (simp add: change_task_description_def)
next
  case d: True
  show ?thesis
  proof (cases "exists w (d @ [''meta''])")
    case False
    with d show ?thesis by (simp add: change_task_description_def)
  next
    case m: True
    show ?thesis
    proof (cases "exists w (d @ [''meta'', ''episodes.jsonl''])")
      case False
      with d m show ?thesis by (simp add: change_task_description_def)
    next
      case e: True
      with assms d m have "\<not> exists w (d @ [''meta'', ''tasks.jsonl''])" by simp
      with d m e show ?thesis by (simp add: change_task_description_def)
    qed
  qed
qed

lemma episodes_step_written:
  assumes "update_episodes_jsonl L (d @ [''meta'', ''episodes.jsonl'']) T b (announced L d T b w)
      = (Inr (), w5)"
  shows "written w5 = written w @
      (if b then [copy_target w (d @ [''meta'', ''episodes.jsonl''])
                    (d @ [''meta'', ''episodes.jsonl.backup'']),
                  d @ [''meta'', ''episodes.jsonl'']]
       else [d @ [''meta'', ''episodes.jsonl'']])"
proof -
  let ?ef = "d @ [''meta'', ''episodes.jsonl'']"
  let ?ebf = "d @ [''meta'', ''episodes.jsonl.backup'']"
  let ?a = "announced L d T b w"
  from update_episodes_completed[OF assms] obtain ec re where
    ec: "files ?a ?ef = Some (File ec)" and re: "read_episodes L T (file_lines ec) = Inr re"
    by blast
  have nd: "b \<longrightarrow> files ?a (copy_target ?a ?ef ?ebf) \<noteq> Some Dir"
  proof (intro impI notI)
    assume b and dir: "files ?a (copy_target ?a ?ef ?ebf) = Some Dir"
    from update_episodes_backup_dir[OF ec re with_suffix_episodes_path dir] assms \<open>b\<close>
    show False by auto
  qed
  have fe: "copy_target ?a ?ef ?ebf \<noteq> ?ef"
    using episodes_copy_target_fresh[of w d] by (simp add: copy_target_announced)
  from update_episodes_outcome[OF ec re with_suffix_episodes_path nd fe] assms
  have "written w5 = written ?a @ (if b then [copy_target ?a ?ef ?ebf, ?ef] else [?ef])"
    by auto
  then show ?thesis by (simp only: written_announced copy_target_announced)
qed

lemma run_writes:
  "\<exists>ws. written (snd (change_task_description L d arg b w)) = written w @ ws
     \<and> ws \<in> {[],
         (if b then [copy_target w (d @ [''meta'', ''episodes.jsonl''])
                      (d @ [''meta'', ''episodes.jsonl.backup'']),
                    d @ [''meta'', ''episodes.jsonl'']]
          else [d @ [''meta'', ''episodes.jsonl'']]),
         (if b then [copy_target w (d @ [''meta'', ''episodes.jsonl''])
                      (d @ [''meta'', ''episodes.jsonl.backup'']),
                    d @ [''meta'', ''episodes.jsonl'']]
          else [d @ [''meta'', ''episodes.jsonl'']]) @
         (if b then [copy_target w (d @ [''meta'', ''tasks.jsonl''])
                      (d @ [''meta'', ''tasks.jsonl.backup'']),
                    d @ [''meta'', ''tasks.jsonl'']]
          else [d @ [''meta'', ''tasks.jsonl'']])}"
  (is "\<exists>ws. ?W ws \<and> ws \<in> {[], ?eps, ?eps @ ?tks}")
proof -
  let ?ef = "d @ [''meta'', ''episodes.jsonl'']"
  let ?tf = "d @ [''meta'', ''tasks.jsonl'']"
  have none: "?W [] \<Longrightarrow> ?thesis" by blast
  have one: "?W ?eps \<Longrightarrow> ?thesis" by blast
  have two: "?W (?eps @ ?tks) \<Longrightarrow> ?thesis" by blast
  show ?thesis
  proof (cases "exists w d \<and> exists w (d @ [''meta'']) \<and> exists w ?ef \<and> exists w ?tf")
    case False
    from change_task_description_missing[OF False, of L arg b] show ?thesis
      by (intro none) auto
  next
    case True
    then have ex: "exists w d" "exists w (d @ [''meta''])" "exists w ?ef" "exists w ?tf"
      by simp_all
    show ?thesis
    proof (cases "resolve L arg")
      case (Inl e)
      from change_task_description_resolve_fails[OF ex Inl, of b] show ?thesis
        by (intro none) (simp add: written_print)
    next
      case (Inr T)
      note steps = change_task_description_steps[OF ex Inr, of b]
      let ?a = "announced L d T b w"
      obtain x w5 where u: "update_episodes_jsonl L ?ef T b ?a = (x, w5)"
        by (cases "update_episodes_jsonl L ?ef T b ?a") auto
      show ?thesis
      proof (cases x)
        case (Inl e)
        with u have "w5 = ?a" using update_episodes_fails by blast
        with steps u Inl show ?thesis
          by (intro none) (simp add: written_announced)
      next
        case xr: (Inr uu)
        with u have u': "update_episodes_jsonl L ?ef T b ?a = (Inr (), w5)" by simp
        note w5 = episodes_step_written[OF u']
        obtain y w6 where v: "update_tasks_jsonl L ?tf T b w5 = (y, w6)"
          by (cases "update_tasks_jsonl L ?tf T b w5") auto
        show ?thesis
        proof (cases y)
          case (Inl e)
          with v have "w6 = w5" using update_tasks_fails by blast
          with steps u' v Inl have "snd (change_task_description L d arg b w) = w5" by simp
          with w5 show ?thesis by (intro one) simp
        next
          case (Inr vv)
          with steps u' v have c: "change_task_description L d arg b w = (Inr (), concluded b w6)"
            by simp
          from completed_run[OF c]
          have "written (concluded b w6) = written w @ ?eps @ ?tks"
            by (cases b) auto
          with c show ?thesis by (intro two) simp
        qed
      qed
    qed
  qed
qed

lemma read_tasks_undecodable:
  "list_ex (\<lambda>l. isl (json_loads L (strip l))) (nonblank ls) \<Longrightarrow> \<exists>e. read_tasks L T ls = Inl e"
proof (induction ls)
  case Nil
  then show ?case by (simp add: nonblank_def)
next
  case (Cons l ls)
  show ?case
  proof (cases "strip l = []")
    case True
    with Cons show ?thesis by (simp add: nonblank_def)
  next
    case nb: False
    show ?thesis
    proof (cases "json_loads L (strip l)")
      case (Inl e)
      with nb show ?thesis by simp
    next
      case (Inr task)
      with Cons.prems nb have "list_ex (\<lambda>l. isl (json_loads L (strip l))) (nonblank ls)"
        by (simp add: nonblank_def)
      from Cons.IH[OF this] obtain e where "read_tasks L T ls = Inl e" by blast
      with nb Inr show ?thesis by (simp split: sum.splits)
    qed
  qed
qed

lemma written_main:
  "written (snd (main L d raw b w)) = written (snd (change_task_description L d (RawText raw) b w))"
  by (simp add: main_def written_print split: prod.splits sum.splits)

lemma episodes_step:
  assumes "update_episodes_jsonl L (d @ [''meta'', ''episodes.jsonl'']) T b (announced L d T b w)
      = (Inr (), w5)"
  shows "\<exists>ec recs. files w (d @ [''meta'', ''episodes.jsonl'']) = Some (File ec)
      \<and> read_episodes L T (file_lines ec) = Inr recs
      \<and> files w5 =
          (if b then (files w)
             (copy_target w (d @ [''meta'', ''episodes.jsonl'']) (d @ [''meta'', ''episodes.jsonl.backup''])
                \<mapsto> File ec,
              d @ [''meta'', ''episodes.jsonl''] \<mapsto> File (dump_lines L recs))
           else (files w)(d @ [''meta'', ''episodes.jsonl''] \<mapsto> File (dump_lines L recs)))"
proof -
  let ?ef = "d @ [''meta'', ''episodes.jsonl'']"
  let ?ebf = "d @ [''meta'', ''episodes.jsonl.backup'']"
  let ?a = "announced L d T b w"
  from update_episodes_completed[OF assms] obtain ec re where
    ec: "files ?a ?ef = Some (File ec)" and re: "read_episodes L T (file_lines ec) = Inr re"
    by blast
  have nd: "b \<longrightarrow> files ?a (copy_target ?a ?ef ?ebf) \<noteq> Some Dir"
  proof (intro impI notI)
    assume b and dir: "files ?a (copy_target ?a ?ef ?ebf) = Some Dir"
    from update_episodes_backup_dir[OF ec re with_suffix_episodes_path dir] assms \<open>b\<close>
    show False by auto
  qed
  have fe: "copy_target ?a ?ef ?ebf \<noteq> ?ef"
    using episodes_copy_target_fresh[of w d] by (simp add: copy_target_announced)
  from update_episodes_outcome[OF ec re with_suffix_episodes_path nd fe] assms
  have "files w5 = (if b then (files ?a)(copy_target ?a ?ef ?ebf \<mapsto> File ec, ?ef \<mapsto> File (dump_lines L re))
                    else (files ?a)(?ef \<mapsto> File (dump_lines L re)))"
    by auto
  then have "files w5 = (if b then (files w)(copy_target w ?ef ?ebf \<mapsto> File ec, ?ef \<mapsto> File (dump_lines L re))
                    else (files w)(?ef \<mapsto> File (dump_lines L re)))"
    by (simp only: files_announced copy_target_announced)
  moreover have "files w ?ef = Some (File ec)" using ec by (simp add: files_announced)
  ultimately show ?thesis using re by blast
qed

lemma tasks_read_fails_run:
  assumes ex: "exists w d" "exists w (d @ [''meta''])"
    and ef: "files w (d @ [''meta'', ''episodes.jsonl'']) = Some (File ec)"
    and tf: "files w (d @ [''meta'', ''tasks.jsonl'']) = Some (File tc)"
    and T: "parse_task_input L raw = Inr T"
    and rt: "read_tasks L T (file_lines tc) = Inl e"
  shows "\<exists>w' ws. main L d raw b w = (1, w')
      \<and> files w' (d @ [''meta'', ''tasks.jsonl'']) = Some (File tc)
      \<and> written w' = written w @ ws \<and> d @ [''meta'', ''tasks.jsonl''] \<notin> set ws"
proof -
  let ?ef = "d @ [''meta'', ''episodes.jsonl'']"
  let ?tf = "d @ [''meta'', ''tasks.jsonl'']"
  let ?t = "copy_target w ?ef (d @ [''meta'', ''episodes.jsonl.backup''])"
  let ?a = "announced L d T b w"
  have ex2: "exists w ?ef" "exists w ?tf" using ef tf by (simp_all add: exists_def)
  have res: "resolve L (RawText raw) = Inr T" using T by (simp add: resolve_def)
  note steps = change_task_description_steps[OF ex ex2 res, of b]
  have fresh: "?t \<noteq> ?tf" "?ef \<noteq> ?tf" using episodes_copy_target_fresh[of w d] by auto
  obtain x w5 where u: "update_episodes_jsonl L ?ef T b ?a = (x, w5)"
    by (cases "update_episodes_jsonl L ?ef T b ?a") auto
  show ?thesis
  proof (cases x)
    case (Inl e')
    with u have "w5 = ?a" using update_episodes_fails by blast
    with steps u Inl have "change_task_description L d (RawText raw) b w = (Inl e', ?a)" by simp
    then have "main L d raw b w = (1, print (cross_mark @ '' Error: '' @ snd e') ?a)"
      by (rule main_aborts)
    moreover have "files (print (cross_mark @ '' Error: '' @ snd e') ?a) ?tf = Some (File tc)"
      using tf by (simp add: files_print files_announced)
    moreover have "written (print (cross_mark @ '' Error: '' @ snd e') ?a) = written w @ []"
      by (simp add: written_print written_announced)
    ultimately show ?thesis by (intro exI[of _ "print (cross_mark @ '' Error: '' @ snd e') ?a"] exI[of _ "[]"]) simp
  next
    case (Inr uu)
    with u have u': "update_episodes_jsonl L ?ef T b ?a = (Inr (), w5)" by simp
    from episodes_step[OF u'] obtain ec' recs where
      f5: "files w5 = (if b then (files w)(?t \<mapsto> File ec', ?ef \<mapsto> File (dump_lines L recs))
                       else (files w)(?ef \<mapsto> File (dump_lines L recs)))" by blast
    note w5 = episodes_step_written[OF u']
    have t5: "files w5 ?tf = Some (File tc)" using f5 tf fresh by simp
    then have "update_tasks_jsonl L ?tf T b w5 = (Inl e, w5)"
      using rt by (rule update_tasks_read_fails)
    with steps u' have "change_task_description L d (RawText raw) b w = (Inl e, w5)" by simp
    then have m: "main L d raw b w = (1, print (cross_mark @ '' Error: '' @ snd e) w5)"
      by (rule main_aborts)
    have "?tf \<notin> set (if b then [?t, ?ef] else [?ef])" using fresh by auto
    with m t5 w5 show ?thesis
      by (intro exI[of _ "print (cross_mark @ '' Error: '' @ snd e) w5"]
                exI[of _ "if b then [?t, ?ef] else [?ef]"])
         (simp add: files_print written_print)
  qed
qed

lemma tasks_undecodable_run:
  assumes ex: "exists w d" "exists w (d @ [''meta''])"
    and ef: "files w (d @ [''meta'', ''episodes.jsonl'']) = Some (File ec)"
    and tf: "files w (d @ [''meta'', ''tasks.jsonl'']) = Some (File tc)"
    and T: "parse_task_input L raw = Inr T"
    and de: "decode_lines L (file_lines ec) = map (\<lambda>kvs. Inr (JObj kvs)) objs"
    and nd: "b \<longrightarrow> files w (copy_target w (d @ [''meta'', ''episodes.jsonl''])
                          (d @ [''meta'', ''episodes.jsonl.backup''])) \<noteq> Some Dir"
    and bad: "list_ex (\<lambda>l. isl (json_loads L (strip l))) (nonblank (file_lines tc))"
  shows "\<exists>w'. main L d raw b w = (1, w')
      \<and> files w' (d @ [''meta'', ''episodes.jsonl'']) =
          Some (File (concat (map (\<lambda>kvs. json_dumps L
             (JObj (AList.update ''tasks'' (JArr (map JStr T)) kvs)) @ [LF]) objs)))
      \<and> files w' (d @ [''meta'', ''tasks.jsonl'']) = Some (File tc)
      \<and> written w' = written w @
          (if b then [copy_target w (d @ [''meta'', ''episodes.jsonl''])
                        (d @ [''meta'', ''episodes.jsonl.backup'']),
                      d @ [''meta'', ''episodes.jsonl'']]
           else [d @ [''meta'', ''episodes.jsonl'']])"
proof -
  let ?ef = "d @ [''meta'', ''episodes.jsonl'']"
  let ?tf = "d @ [''meta'', ''tasks.jsonl'']"
  let ?ebf = "d @ [''meta'', ''episodes.jsonl.backup'']"
  let ?t = "copy_target w ?ef ?ebf"
  let ?a = "announced L d T b w"
  let ?recs = "map (\<lambda>kvs. JObj (AList.update ''tasks'' (JArr (map JStr T)) kvs)) objs"
  have ex2: "exists w ?ef" "exists w ?tf" using ef tf by (simp_all add: exists_def)
  have res: "resolve L (RawText raw) = Inr T" using T by (simp add: resolve_def)
  note steps = change_task_description_steps[OF ex ex2 res, of b]
  have efa: "files ?a ?ef = Some (File ec)" using ef by (simp add: files_announced)
  have re: "read_episodes L T (file_lines ec) = Inr ?recs" using de by (rule read_episodes_records)
  from read_tasks_undecodable[OF bad] obtain e where rt: "read_tasks L T (file_lines tc) = Inl e"
    by blast
  have fresh: "?t \<noteq> ?ef" "?t \<noteq> ?tf" "?ef \<noteq> ?tf" using episodes_copy_target_fresh[of w d] by auto
  have "b \<longrightarrow> files ?a (copy_target ?a ?ef ?ebf) \<noteq> Some Dir"
    using nd by (simp add: files_announced copy_target_announced)
  moreover have "copy_target ?a ?ef ?ebf \<noteq> ?ef"
    using fresh by (simp add: copy_target_announced)
  ultimately obtain w5 where u: "update_episodes_jsonl L ?ef T b ?a = (Inr (), w5)"
    and f5': "files w5 = (if b
          then (files ?a)(copy_target ?a ?ef ?ebf \<mapsto> File ec, ?ef \<mapsto> File (dump_lines L ?recs))
          else (files ?a)(?ef \<mapsto> File (dump_lines L ?recs)))"
    and w5': "written w5 = written ?a @ (if b then [copy_target ?a ?ef ?ebf, ?ef] else [?ef])"
    using update_episodes_outcome[OF efa re with_suffix_episodes_path, of b] by blast
  have f5: "files w5 = (if b then (files w)(?t \<mapsto> File ec, ?ef \<mapsto> File (dump_lines L ?recs))
                         else (files w)(?ef \<mapsto> File (dump_lines L ?recs)))"
    using f5' by (simp only: files_announced copy_target_announced)
  have w5: "written w5 = written w @ (if b then [?t, ?ef] else [?ef])"
    using w5' by (simp only: written_announced copy_target_announced)
  have t5: "files w5 ?tf = Some (File tc)" using f5 tf fresh by simp
  then have "update_tasks_jsonl L ?tf T b w5 = (Inl e, w5)"
    using rt by (rule update_tasks_read_fails)
  with steps u have "change_task_description L d (RawText raw) b w = (Inl e, w5)" by simp
  then have m: "main L d raw b w = (1, print (cross_mark @ '' Error: '' @ snd e) w5)"
    by (rule main_aborts)
  have c: "dump_lines L ?recs = concat (map (\<lambda>kvs. json_dumps L
             (JObj (AList.update ''tasks'' (JArr (map JStr T)) kvs)) @ [LF]) objs)"
    by (simp add: dump_lines_def comp_def)
  have e5: "files w5 ?ef = Some (File (dump_lines L ?recs))" using f5 by simp
  from m e5 t5 w5 show ?thesis unfolding c by (simp add: files_print written_print)
qed

text \<open>
  Claim C4. In every run, whatever its arguments and the files it finds, the paths
  written are none, or those of the episodes rewrite (its backup when the flag is set,
  then the episodes file), or those of the episodes rewrite followed by those of the
  tasks rewrite: the tasks file is never written before the episodes file is. In a
  dataset whose two files exist, with a task argument that parses: when the read of the
  episodes file fails, the run ends with exit code 1 and has written nothing, so no file
  is changed; when the read of the tasks file fails, the run ends with exit code 1, the
  tasks file has its contents and is not among the paths written; and when every line of
  the episodes file decodes to a record, the backup copy has somewhere to go and a
  non-blank line of the tasks file is not decoded, the run ends with exit code 1 with
  the episodes file already overwritten, one encoded record with \<^verbatim>\<open>tasks\<close> set
  per line, and the tasks file unchanged.
\<close>
theorem tasks_failure_after_episodes:
  "(\<exists>ws. written (snd (main L d raw backup w)) = written w @ ws
      \<and> ws \<in> {[],
          (if backup then [copy_target w (d @ [''meta'', ''episodes.jsonl''])
                            (d @ [''meta'', ''episodes.jsonl.backup'']),
                          d @ [''meta'', ''episodes.jsonl'']]
           else [d @ [''meta'', ''episodes.jsonl'']]),
          (if backup then [copy_target w (d @ [''meta'', ''episodes.jsonl''])
                            (d @ [''meta'', ''episodes.jsonl.backup'']),
                          d @ [''meta'', ''episodes.jsonl'']]
           else [d @ [''meta'', ''episodes.jsonl'']]) @
          (if backup then [copy_target w (d @ [''meta'', ''tasks.jsonl''])
                            (d @ [''meta'', ''tasks.jsonl.backup'']),
                          d @ [''meta'', ''tasks.jsonl'']]
           else [d @ [''meta'', ''tasks.jsonl'']])})
   \<and> d @ [''meta'', ''tasks.jsonl''] \<notin>
        {copy_target w (d @ [''meta'', ''episodes.jsonl'']) (d @ [''meta'', ''episodes.jsonl.backup'']),
         d @ [''meta'', ''episodes.jsonl'']}
   \<and> d @ [''meta'', ''episodes.jsonl''] \<notin>
        {copy_target w (d @ [''meta'', ''tasks.jsonl'']) (d @ [''meta'', ''tasks.jsonl.backup'']),
         d @ [''meta'', ''tasks.jsonl'']}
   \<and> (exists w d \<and> exists w (d @ [''meta''])
        \<and> files w (d @ [''meta'', ''episodes.jsonl'']) = Some (File ec)
        \<and> files w (d @ [''meta'', ''tasks.jsonl'']) = Some (File tc)
        \<and> parse_task_input L raw = Inr T \<longrightarrow>
      (\<forall>e. read_episodes L T (file_lines ec) = Inl e \<longrightarrow>
          (\<exists>w'. main L d raw backup w = (1, w') \<and> files w' = files w \<and> written w' = written w))
      \<and> (\<forall>e. read_tasks L T (file_lines tc) = Inl e \<longrightarrow>
          (\<exists>w' ws. main L d raw backup w = (1, w')
             \<and> files w' (d @ [''meta'', ''tasks.jsonl'']) = Some (File tc)
             \<and> written w' = written w @ ws \<and> d @ [''meta'', ''tasks.jsonl''] \<notin> set ws))
      \<and> (\<forall>objs.
          decode_lines L (file_lines ec) = map (\<lambda>kvs. Inr (JObj kvs)) objs
          \<and> (backup \<longrightarrow>
                files w (copy_target w (d @ [''meta'', ''episodes.jsonl''])
                          (d @ [''meta'', ''episodes.jsonl.backup''])) \<noteq> Some Dir)
          \<and> list_ex (\<lambda>l. isl (json_loads L (strip l))) (nonblank (file_lines tc)) \<longrightarrow>
            (\<exists>w'. main L d raw backup w = (1, w')
               \<and> files w' (d @ [''meta'', ''episodes.jsonl'']) =
                   Some (File (concat (map (\<lambda>kvs. json_dumps L
                      (JObj (AList.update ''tasks'' (JArr (map JStr T)) kvs)) @ [LF]) objs)))
               \<and> files w' (d @ [''meta'', ''tasks.jsonl'']) = Some (File tc)
               \<and> written w' = written w @
                    (if backup
                     then [copy_target w (d @ [''meta'', ''episodes.jsonl''])
                             (d @ [''meta'', ''episodes.jsonl.backup'']),
                           d @ [''meta'', ''episodes.jsonl'']]
                     else [d @ [''meta'', ''episodes.jsonl'']]))))"
proof (intro conjI impI allI)
  let ?ef = "d @ [''meta'', ''episodes.jsonl'']"
  let ?tf = "d @ [''meta'', ''tasks.jsonl'']"
  show "\<exists>ws. written (snd (main L d raw backup w)) = written w @ ws
      \<and> ws \<in> {[],
          (if backup then [copy_target w ?ef (d @ [''meta'', ''episodes.jsonl.backup'']), ?ef]
           else [?ef]),
          (if backup then [copy_target w ?ef (d @ [''meta'', ''episodes.jsonl.backup'']), ?ef]
           else [?ef]) @
          (if backup then [copy_target w ?tf (d @ [''meta'', ''tasks.jsonl.backup'']), ?tf]
           else [?tf])}"
    unfolding written_main by (rule run_writes)
  show "?tf \<notin> {copy_target w ?ef (d @ [''meta'', ''episodes.jsonl.backup'']), ?ef}"
    using episodes_copy_target_fresh[of w d] by auto
  show "?ef \<notin> {copy_target w ?tf (d @ [''meta'', ''tasks.jsonl.backup'']), ?tf}"
    using tasks_copy_target_fresh[of w d] by auto
next
  fix e
  assume h: "exists w d \<and> exists w (d @ [''meta''])
        \<and> files w (d @ [''meta'', ''episodes.jsonl'']) = Some (File ec)
        \<and> files w (d @ [''meta'', ''tasks.jsonl'']) = Some (File tc)
        \<and> parse_task_input L raw = Inr T"
    and r: "read_episodes L T (file_lines ec) = Inl e"
  let ?ef = "d @ [''meta'', ''episodes.jsonl'']"
  let ?tf = "d @ [''meta'', ''tasks.jsonl'']"
  let ?a = "announced L d T backup w"
  from h have ex: "exists w d" "exists w (d @ [''meta''])" "exists w ?ef" "exists w ?tf"
    by (simp_all add: exists_def)
  have res: "resolve L (RawText raw) = Inr T" using h by (simp add: resolve_def)
  note steps = change_task_description_steps[OF ex res, of backup]
  have efa: "files ?a ?ef = Some (File ec)" using h by (simp add: files_announced)
  from efa r have "update_episodes_jsonl L ?ef T backup ?a = (Inl e, ?a)"
    by (rule update_episodes_read_fails)
  with steps have "change_task_description L d (RawText raw) backup w = (Inl e, ?a)" by simp
  then have "main L d raw backup w = (1, print (cross_mark @ '' Error: '' @ snd e) ?a)"
    by (rule main_aborts)
  then show "\<exists>w'. main L d raw backup w = (1, w') \<and> files w' = files w \<and> written w' = written w"
    by (simp add: files_print files_announced written_print written_announced)
next
  fix e
  assume h: "exists w d \<and> exists w (d @ [''meta''])
        \<and> files w (d @ [''meta'', ''episodes.jsonl'']) = Some (File ec)
        \<and> files w (d @ [''meta'', ''tasks.jsonl'']) = Some (File tc)
        \<and> parse_task_input L raw = Inr T"
    and r: "read_tasks L T (file_lines tc) = Inl e"
  from h have a: "exists w d" "exists w (d @ [''meta''])"
    "files w (d @ [''meta'', ''episodes.jsonl'']) = Some (File ec)"
    "files w (d @ [''meta'', ''tasks.jsonl'']) = Some (File tc)"
    "parse_task_input L raw = Inr T" by simp_all
  from tasks_read_fails_run[OF a r, of backup]
  show "\<exists>w' ws. main L d raw backup w = (1, w')
             \<and> files w' (d @ [''meta'', ''tasks.jsonl'']) = Some (File tc)
             \<and> written w' = written w @ ws \<and> d @ [''meta'', ''tasks.jsonl''] \<notin> set ws" .
next
  fix objs
  assume h: "exists w d \<and> exists w (d @ [''meta''])
        \<and> files w (d @ [''meta'', ''episodes.jsonl'']) = Some (File ec)
        \<and> files w (d @ [''meta'', ''tasks.jsonl'']) = Some (File tc)
        \<and> parse_task_input L raw = Inr T"
    and g: "decode_lines L (file_lines ec) = map (\<lambda>kvs. Inr (JObj kvs)) objs
          \<and> (backup \<longrightarrow>
                files w (copy_target w (d @ [''meta'', ''episodes.jsonl''])
                          (d @ [''meta'', ''episodes.jsonl.backup''])) \<noteq> Some Dir)
          \<and> list_ex (\<lambda>l. isl (json_loads L (strip l))) (nonblank (file_lines tc))"
  from h have a: "exists w d" "exists w (d @ [''meta''])"
    "files w (d @ [''meta'', ''episodes.jsonl'']) = Some (File ec)"
    "files w (d @ [''meta'', ''tasks.jsonl'']) = Some (File tc)"
    "parse_task_input L raw = Inr T" by simp_all
  from g have b: "decode_lines L (file_lines ec) = map (\<lambda>kvs. Inr (JObj kvs)) objs"
    "backup \<longrightarrow> files w (copy_target w (d @ [''meta'', ''episodes.jsonl''])
                          (d @ [''meta'', ''episodes.jsonl.backup''])) \<noteq> Some Dir"
    "list_ex (\<lambda>l. isl (json_loads L (strip l))) (nonblank (file_lines tc))" by simp_all
  from tasks_undecodable_run[OF a b]
  show "\<exists>w'. main L d raw backup w = (1, w')
               \<and> files w' (d @ [''meta'', ''episodes.jsonl'']) =
                   Some (File (concat (map (\<lambda>kvs. json_dumps L
                      (JObj (AList.update ''tasks'' (JArr (map JStr T)) kvs)) @ [LF]) objs)))
               \<and> files w' (d @ [''meta'', ''tasks.jsonl'']) = Some (File tc)
               \<and> written w' = written w @
                    (if backup
                     then [copy_target w (d @ [''meta'', ''episodes.jsonl''])
                             (d @ [''meta'', ''episodes.jsonl.backup'']),
                           d @ [''meta'', ''episodes.jsonl'']]
                     else [d @ [''meta'', ''episodes.jsonl'']])" .
qed

lemma bad_tasks_undecodable:
  "list_ex (\<lambda>l. isl (json_loads py_lib (strip l))) (nonblank (file_lines bad_tasks))"
  by code_simp

text \<open>
  The hypotheses of C4 hold in the scenario whose tasks file is cut short, with the
  backup flag set: the run writes the backup of the episodes file and the episodes file,
  and ends with exit code 1.
\<close>
theorem tasks_failure_after_episodes_witness:
  "exists bad_tasks_world [''data''] \<and> exists bad_tasks_world ([''data''] @ [''meta''])
   \<and> files bad_tasks_world ([''data''] @ [''meta'', ''episodes.jsonl'']) = Some (File example_episodes)
   \<and> files bad_tasks_world ([''data''] @ [''meta'', ''tasks.jsonl'']) = Some (File bad_tasks)
   \<and> parse_task_input py_lib ''Pick up the red cube'' = Inr [''Pick up the red cube'']
   \<and> decode_lines py_lib (file_lines example_episodes) =
       map (\<lambda>kvs. Inr (JObj kvs))
         [[(''episode_index'', JInt 0), (''tasks'', JArr [JStr ''old''])],
          [(''episode_index'', JInt 1), (''tasks'', JArr [JStr ''old''])]]
   \<and> files bad_tasks_world
        (copy_target bad_tasks_world ([''data''] @ [''meta'', ''episodes.jsonl''])
           ([''data''] @ [''meta'', ''episodes.jsonl.backup''])) \<noteq> Some Dir
   \<and> list_ex (\<lambda>l. isl (json_loads py_lib (strip l))) (nonblank (file_lines bad_tasks))
   \<and> read_tasks py_lib [''Pick up the red cube''] (file_lines bad_tasks) =
       Inl (JSONDecodeError,
            ''Expecting property name enclosed in double quotes: line 1 column 17 (char 16)'')
   \<and> (\<exists>w'. main py_lib [''data''] ''Pick up the red cube'' True bad_tasks_world = (1, w')
        \<and> files w' ([''data''] @ [''meta'', ''episodes.jsonl'']) =
            Some (File (concat (map (\<lambda>kvs. json_dumps py_lib
               (JObj (AList.update ''tasks'' (JArr (map JStr [''Pick up the red cube''])) kvs)) @ [LF])
              [[(''episode_index'', JInt 0), (''tasks'', JArr [JStr ''old''])],
               [(''episode_index'', JInt 1), (''tasks'', JArr [JStr ''old''])]])))
        \<and> files w' ([''data''] @ [''meta'', ''tasks.jsonl'']) = Some (File bad_tasks)
        \<and> written w' = written bad_tasks_world @
             [copy_target bad_tasks_world ([''data''] @ [''meta'', ''episodes.jsonl''])
                ([''data''] @ [''meta'', ''episodes.jsonl.backup'']),
              [''data''] @ [''meta'', ''episodes.jsonl'']])
   \<and> (\<exists>w' ws. main py_lib [''data''] ''Pick up the red cube'' True bad_tasks_world = (1, w')
        \<and> files w' ([''data''] @ [''meta'', ''tasks.jsonl'']) = Some (File bad_tasks)
        \<and> written w' = written bad_tasks_world @ ws
        \<and> [''data''] @ [''meta'', ''tasks.jsonl''] \<notin> set ws)"
proof -
  have h1: "exists bad_tasks_world [''data'']" by code_simp
  have h2: "exists bad_tasks_world ([''data''] @ [''meta''])" by code_simp
  have h3: "files bad_tasks_world ([''data''] @ [''meta'', ''episodes.jsonl''])
      = Some (File example_episodes)" by code_simp
  have h4: "files bad_tasks_world ([''data''] @ [''meta'', ''tasks.jsonl'']) = Some (File bad_tasks)"
    by code_simp
  note hyps = conjI[OF h1 conjI[OF h2 conjI[OF h3 conjI[OF h4 example_task_parsed]]]]
  note c = tasks_failure_after_episodes[of py_lib "[''data'']" "''Pick up the red cube''" True
      bad_tasks_world example_episodes bad_tasks "[''Pick up the red cube'']",
      THEN conjunct2, THEN conjunct2, THEN conjunct2, rule_format, OF hyps]
  note c2 = c[THEN conjunct2, THEN conjunct1, rule_format, OF bad_tasks_read]
  note c3 = c[THEN conjunct2, THEN conjunct2, rule_format,
      OF conjI[OF example_episodes_decoded conjI[OF impI[OF bad_tasks_backup_free] bad_tasks_undecodable]]]
  from c3 have c3': "\<exists>w'. main py_lib [''data''] ''Pick up the red cube'' True bad_tasks_world = (1, w')
        \<and> files w' ([''data''] @ [''meta'', ''episodes.jsonl'']) =
            Some (File (concat (map (\<lambda>kvs. json_dumps py_lib
               (JObj (AList.update ''tasks'' (JArr (map JStr [''Pick up the red cube''])) kvs)) @ [LF])
              [[(''episode_index'', JInt 0), (''tasks'', JArr [JStr ''old''])],
               [(''episode_index'', JInt 1), (''tasks'', JArr [JStr ''old''])]])))
        \<and> files w' ([''data''] @ [''meta'', ''tasks.jsonl'']) = Some (File bad_tasks)
        \<and> written w' = written bad_tasks_world @
             [copy_target bad_tasks_world ([''data''] @ [''meta'', ''episodes.jsonl''])
                ([''data''] @ [''meta'', ''episodes.jsonl.backup'']),
              [''data''] @ [''meta'', ''episodes.jsonl'']]"
    by (simp only: if_True)
  from h1 h2 h3 h4 example_task_parsed example_episodes_decoded bad_tasks_backup_free
    bad_tasks_undecodable bad_tasks_read c3' c2
  show ?thesis by (intro conjI)
qed

subsection \<open>Backups\<close>





subsection \<open>Running the rewrite twice\<close>








end
